theory Spec2Isabelle
  imports Main
begin

section \<open>Byte strings and the \<open>struct\<close> helpers\<close>

text \<open>
  A Python \<open>bytes\<close> value is a list of 8-bit characters. Python integers are unbounded,
  so block numbers, opcodes and error codes are \<open>int\<close>.
\<close>

type_synonym bytes = "char list"

definition NUL :: char where
  "NUL = CHR 0x00"

text \<open>
  \<open>struct.unpack(b"!H", bs)\<close>: a big-endian unsigned 16-bit number; \<open>struct.error\<close>
  (here \<open>None\<close>) unless \<open>bs\<close> has exactly two bytes.
\<close>

definition unpack_H :: "bytes \<Rightarrow> int option" where
  "unpack_H bs = (case bs of [hi, lo] \<Rightarrow> Some (256 * of_char hi + of_char lo) | _ \<Rightarrow> None)"

text \<open>
  \<open>struct.pack(b"!H", n)\<close>: \<open>struct.error\<close> (here \<open>None\<close>) unless \<open>0 \<le> n \<le> 65535\<close>.
\<close>

definition pack_H :: "int \<Rightarrow> bytes option" where
  "pack_H n = (if 0 \<le> n \<and> n \<le> 65535 then Some [char_of (n div 256), char_of (n mod 256)]
               else None)"

text \<open>\<open>payload.split(b'\x00')\<close>: one fragment more than there are separators.\<close>

fun split_bytes :: "char \<Rightarrow> bytes \<Rightarrow> bytes list" where
  "split_bytes sep [] = [[]]"
| "split_bytes sep (c # cs) =
     (if c = sep then [] # split_bytes sep cs
      else (case split_bytes sep cs of
              [] \<Rightarrow> [[c]]
            | p # ps \<Rightarrow> (c # p) # ps))"

text \<open>\<open>sep.join(xs)\<close>.\<close>

fun join_bytes :: "bytes \<Rightarrow> bytes list \<Rightarrow> bytes" where
  "join_bytes sep [] = []"
| "join_bytes sep [x] = x"
| "join_bytes sep (x # y # ys) = x @ sep @ join_bytes sep (y # ys)"

text \<open>\<open>bytes.lower()\<close>: only the ASCII letters \<open>A\<close>..\<open>Z\<close> (65..90) change.\<close>

definition lower_byte :: "char \<Rightarrow> char" where
  "lower_byte c = (let n = (of_char c :: nat) in
                    if 65 \<le> n \<and> n \<le> 90 then char_of (n + 32) else c)"

definition bytes_lower :: "bytes \<Rightarrow> bytes" where
  "bytes_lower bs = map lower_byte bs"

definition is_upper_byte :: "char \<Rightarrow> bool" where
  "is_upper_byte c = (65 \<le> (of_char c :: nat) \<and> (of_char c :: nat) \<le> 90)"

section \<open>Constants of \<open>tftp/datagram.py\<close>\<close>

definition OP_RRQ :: int where "OP_RRQ = 1"
definition OP_WRQ :: int where "OP_WRQ = 2"
definition OP_DATA :: int where "OP_DATA = 3"
definition OP_ACK :: int where "OP_ACK = 4"
definition OP_ERROR :: int where "OP_ERROR = 5"
definition OP_OACK :: int where "OP_OACK = 6"

definition ERR_NOT_DEFINED :: int where "ERR_NOT_DEFINED = 0"
definition ERR_FILE_NOT_FOUND :: int where "ERR_FILE_NOT_FOUND = 1"
definition ERR_ACCESS_VIOLATION :: int where "ERR_ACCESS_VIOLATION = 2"
definition ERR_DISK_FULL :: int where "ERR_DISK_FULL = 3"
definition ERR_ILLEGAL_OP :: int where "ERR_ILLEGAL_OP = 4"
definition ERR_TID_UNKNOWN :: int where "ERR_TID_UNKNOWN = 5"
definition ERR_FILE_EXISTS :: int where "ERR_FILE_EXISTS = 6"
definition ERR_NO_SUCH_USER :: int where "ERR_NO_SUCH_USER = 7"
definition ERR_TERM_OPTION :: int where "ERR_TERM_OPTION = 8"

text \<open>The dictionary \<open>errors\<close>, in the order it is written.\<close>

definition errors_items :: "(int \<times> bytes) list" where
  "errors_items =
     [(ERR_NOT_DEFINED, ''''),
      (ERR_FILE_NOT_FOUND, ''File not found''),
      (ERR_ACCESS_VIOLATION, ''Access violation''),
      (ERR_DISK_FULL, ''Disk full or allocation exceeded''),
      (ERR_ILLEGAL_OP, ''Illegal TFTP operation''),
      (ERR_TID_UNKNOWN, ''Unknown transfer ID''),
      (ERR_FILE_EXISTS, ''File already exists''),
      (ERR_NO_SUCH_USER, ''No such user''),
      (ERR_TERM_OPTION, ''Terminate transfer due to option negotiation'')]"

definition errors :: "int \<rightharpoonup> bytes" where
  "errors = map_of errors_items"

section \<open>Exceptions and datagram objects\<close>

datatype options_reason = NoValue bytes | DuplicateOption bytes

datatype tftp_error =
    WireProtocolError
  | InvalidOpcodeError int
  | PayloadDecodeError
  | InvalidErrorcodeError int
  | OptionsDecodeError options_reason
  | IndexError
  | StructError

text \<open>
  An \<open>OrderedDict\<close> of options is the list of its items in insertion order.
\<close>

type_synonym options = "(bytes \<times> bytes) list"

text \<open>\<open>name in options\<close> and \<open>options[name] = value\<close>.\<close>

definition od_contains :: "options \<Rightarrow> bytes \<Rightarrow> bool" where
  "od_contains od k = (map_of od k \<noteq> None)"

fun od_set :: "options \<Rightarrow> bytes \<Rightarrow> bytes \<Rightarrow> options" where
  "od_set [] k v = [(k, v)]"
| "od_set ((k', v') # od) k v = (if k' = k then (k', v) # od else (k', v') # od_set od k v)"

datatype rq_class = RRQDatagram | WRQDatagram

fun rq_opcode :: "rq_class \<Rightarrow> int" where
  "rq_opcode RRQDatagram = OP_RRQ"
| "rq_opcode WRQDatagram = OP_WRQ"

text \<open>
  The attributes of a datagram object, per class. \<open>RQ cls filename mode options\<close>,
  \<open>OACK options\<close>, \<open>DATA blocknum data\<close>, \<open>ACK blocknum\<close>, \<open>ERROR errorcode errmsg\<close>.
\<close>

datatype datagram =
    RQ rq_class bytes bytes options
  | OACK options
  | DATA int bytes
  | ACK int
  | ERROR int bytes

section \<open>\<open>split_opcode\<close>\<close>

definition split_opcode :: "bytes \<Rightarrow> tftp_error + (int \<times> bytes)" where
  "split_opcode datagram =
     (case unpack_H (take 2 datagram) of
        None \<Rightarrow> Inl WireProtocolError
      | Some opcode \<Rightarrow> Inr (opcode, drop 2 datagram))"

section \<open>\<open>DATADatagram\<close> and \<open>ACKDatagram\<close>\<close>

definition DATADatagram_init :: "int \<Rightarrow> bytes \<Rightarrow> datagram" where
  "DATADatagram_init blocknum data = DATA blocknum data"

definition DATADatagram_from_wire :: "bytes \<Rightarrow> tftp_error + datagram" where
  "DATADatagram_from_wire payload =
     (case unpack_H (take 2 payload) of
        None \<Rightarrow> Inl PayloadDecodeError
      | Some blocknum \<Rightarrow> Inr (DATADatagram_init blocknum (drop 2 payload)))"

definition ACKDatagram_init :: "int \<Rightarrow> datagram" where
  "ACKDatagram_init blocknum = ACK blocknum"

definition ACKDatagram_from_wire :: "bytes \<Rightarrow> tftp_error + datagram" where
  "ACKDatagram_from_wire payload =
     (case unpack_H payload of
        None \<Rightarrow> Inl PayloadDecodeError
      | Some blocknum \<Rightarrow> Inr (ACKDatagram_init blocknum))"

text \<open>\<open>struct.pack(b'!HH', a, b)\<close>.\<close>

definition pack_HH :: "int \<Rightarrow> int \<Rightarrow> bytes option" where
  "pack_HH a b =
     (case pack_H a of
        None \<Rightarrow> None
      | Some x \<Rightarrow> (case pack_H b of None \<Rightarrow> None | Some y \<Rightarrow> Some (x @ y)))"

section \<open>\<open>ERRORDatagram\<close>\<close>

definition ERRORDatagram_init :: "int \<Rightarrow> bytes \<Rightarrow> datagram" where
  "ERRORDatagram_init errorcode errmsg = ERROR errorcode errmsg"

text \<open>
  \<open>payload[2:].split(b'\x00')[0]\<close>: the split of any byte string has a first fragment, so
  the index never fails; the model keeps the \<open>IndexError\<close> branch for totality.
\<close>

definition ERRORDatagram_from_wire :: "bytes \<Rightarrow> tftp_error + datagram" where
  "ERRORDatagram_from_wire payload =
     (case unpack_H (take 2 payload) of
        None \<Rightarrow> Inl PayloadDecodeError
      | Some errorcode \<Rightarrow>
          (if errors errorcode = None then Inl (InvalidErrorcodeError errorcode)
           else (case split_bytes NUL (drop 2 payload) of
                   [] \<Rightarrow> Inl IndexError
                 | errmsg # _ \<Rightarrow>
                     (if errmsg = []
                      then (case errors errorcode of
                              None \<Rightarrow> Inl IndexError
                            | Some m \<Rightarrow> Inr (ERRORDatagram_init errorcode m))
                      else Inr (ERRORDatagram_init errorcode errmsg)))))"

text \<open>\<open>ERRORDatagram.from_code(errorcode, errmsg=None)\<close>.\<close>

definition ERRORDatagram_from_code :: "int \<Rightarrow> bytes option \<Rightarrow> tftp_error + datagram" where
  "ERRORDatagram_from_code errorcode errmsg =
     (case errors errorcode of
        None \<Rightarrow> Inl (InvalidErrorcodeError errorcode)
      | Some m \<Rightarrow>
          (case errmsg of
             None \<Rightarrow> Inr (ERRORDatagram_init errorcode m)
           | Some e \<Rightarrow> Inr (ERRORDatagram_init errorcode e)))"

section \<open>\<open>RQDatagram\<close> and \<open>OACKDatagram\<close>\<close>

text \<open>The constructor of \<open>RQDatagram\<close> stores \<open>mode.lower()\<close>.\<close>

definition RQDatagram_init :: "rq_class \<Rightarrow> bytes \<Rightarrow> bytes \<Rightarrow> options \<Rightarrow> datagram" where
  "RQDatagram_init cls filename mode options = RQ cls filename (bytes_lower mode) options"

definition OACKDatagram_init :: "options \<Rightarrow> datagram" where
  "OACKDatagram_init options = OACK options"

text \<open>\<open>while parts and not parts[-1]: parts.pop(-1)\<close>.\<close>

function strip_trailing_empty :: "bytes list \<Rightarrow> bytes list" where
  "strip_trailing_empty parts =
     (if parts \<noteq> [] \<and> last parts = [] then strip_trailing_empty (butlast parts) else parts)"
  by pat_completeness auto
termination
  by (relation "measure length") auto

declare strip_trailing_empty.simps [simp del]

text \<open>\<open>parts[::2]\<close>.\<close>

fun stride2 :: "'a list \<Rightarrow> 'a list" where
  "stride2 [] = []"
| "stride2 [x] = [x]"
| "stride2 (x # y # xs) = x # stride2 xs"

text \<open>
  The loop \<open>for ind, opt_name in enumerate(parts[::2])\<close>, with the dictionary built so
  far as the accumulator. \<open>parts[ind * 2 + 1]\<close> raises \<open>IndexError\<close> out of range.
\<close>

fun options_loop :: "bytes list \<Rightarrow> (nat \<times> bytes) list \<Rightarrow> options \<Rightarrow> tftp_error + options" where
  "options_loop parts [] options = Inr options"
| "options_loop parts ((ind, opt_name) # rest) options =
     (if od_contains options opt_name then Inl (OptionsDecodeError (DuplicateOption opt_name))
      else if ind * 2 + 1 < length parts
           then options_loop parts rest (od_set options opt_name (parts ! (ind * 2 + 1)))
           else Inl IndexError)"

definition RQDatagram_from_wire :: "rq_class \<Rightarrow> bytes \<Rightarrow> tftp_error + datagram" where
  "RQDatagram_from_wire cls payload =
     (case split_bytes NUL payload of
        filename # mode # popped \<Rightarrow>
          (let parts = strip_trailing_empty popped in
           if length parts mod 2 \<noteq> 0 then Inl (OptionsDecodeError (NoValue (last parts)))
           else (case options_loop parts (enumerate 0 (stride2 parts)) [] of
                   Inl e \<Rightarrow> Inl e
                 | Inr options \<Rightarrow> Inr (RQDatagram_init cls filename mode options)))
      | _ \<Rightarrow> Inl PayloadDecodeError)"

definition OACKDatagram_from_wire :: "bytes \<Rightarrow> tftp_error + datagram" where
  "OACKDatagram_from_wire payload =
     (let split = split_bytes NUL payload;
          parts = (if split \<noteq> [] \<and> last split = [] then butlast split else split) in
      if length parts mod 2 \<noteq> 0 then Inl (OptionsDecodeError (NoValue (last parts)))
      else (case options_loop parts (enumerate 0 (stride2 parts)) [] of
              Inl e \<Rightarrow> Inl e
            | Inr options \<Rightarrow> Inr (OACKDatagram_init options)))"

section \<open>\<open>to_wire\<close>\<close>

text \<open>\<open>chain.from_iterable(self.options.items())\<close>.\<close>

definition chain_items :: "options \<Rightarrow> bytes list" where
  "chain_items options = concat (map (\<lambda>(name, val). [name, val]) options)"

text \<open>
  The method \<open>to_wire\<close> of each class; a \<open>struct.error\<close> of \<open>struct.pack\<close> is not caught
  by the source and is the result \<open>Inl StructError\<close>.
\<close>

fun to_wire :: "datagram \<Rightarrow> tftp_error + bytes" where
  "to_wire (RQ cls filename mode options) =
     (case pack_H (rq_opcode cls) of
        None \<Rightarrow> Inl StructError
      | Some opcode \<Rightarrow>
          (if options \<noteq> []
           then Inr (opcode @ filename @ [NUL] @ mode @ [NUL]
                     @ join_bytes [NUL] (chain_items options) @ [NUL])
           else Inr (opcode @ filename @ [NUL] @ mode @ [NUL])))"
| "to_wire (OACK options) =
     (case pack_H OP_OACK of
        None \<Rightarrow> Inl StructError
      | Some opcode \<Rightarrow>
          (if options \<noteq> []
           then Inr (opcode @ join_bytes [NUL] (chain_items options) @ [NUL])
           else Inr opcode))"
| "to_wire (DATA blocknum data) =
     (case pack_HH OP_DATA blocknum of
        None \<Rightarrow> Inl StructError
      | Some header \<Rightarrow> Inr (header @ data))"
| "to_wire (ACK blocknum) =
     (case pack_HH OP_ACK blocknum of
        None \<Rightarrow> Inl StructError
      | Some header \<Rightarrow> Inr header)"
| "to_wire (ERROR errorcode errmsg) =
     (case pack_HH OP_ERROR errorcode of
        None \<Rightarrow> Inl StructError
      | Some header \<Rightarrow> Inr (header @ errmsg @ [NUL]))"

section \<open>\<open>_TFTPDatagramFactory\<close>\<close>

definition TFTPDatagramFactory :: "int \<Rightarrow> bytes \<Rightarrow> tftp_error + datagram" where
  "TFTPDatagramFactory opcode payload =
     (if opcode = OP_RRQ then RQDatagram_from_wire RRQDatagram payload
      else if opcode = OP_WRQ then RQDatagram_from_wire WRQDatagram payload
      else if opcode = OP_DATA then DATADatagram_from_wire payload
      else if opcode = OP_ACK then ACKDatagram_from_wire payload
      else if opcode = OP_ERROR then ERRORDatagram_from_wire payload
      else if opcode = OP_OACK then OACKDatagram_from_wire payload
      else Inl (InvalidOpcodeError opcode))"

text \<open>\<open>TFTPDatagramFactory(*split_opcode(datagram))\<close>, the decoder of a raw datagram.\<close>

definition decode :: "bytes \<Rightarrow> tftp_error + datagram" where
  "decode datagram =
     (case split_opcode datagram of
        Inl e \<Rightarrow> Inl e
      | Inr (opcode, payload) \<Rightarrow> TFTPDatagramFactory opcode payload)"

section \<open>Specification-level notions\<close>

text \<open>
  A list of fragments read as alternating \<open>name, value\<close> pairs; a last fragment without
  a partner is left out.
\<close>

fun pairs_of :: "bytes list \<Rightarrow> options" where
  "pairs_of (name # val # rest) = (name, val) # pairs_of rest"
| "pairs_of _ = []"

text \<open>
  The loop of \<open>from_wire\<close> over the pairs themselves, without the indices: a device of the
  proofs, shown equal to \<open>options_loop\<close> on a list of even length.
\<close>

fun pairs_loop :: "bytes list \<Rightarrow> options \<Rightarrow> tftp_error + options" where
  "pairs_loop (name # val # rest) options =
     (if od_contains options name then Inl (OptionsDecodeError (DuplicateOption name))
      else pairs_loop rest (od_set options name val))"
| "pairs_loop _ options = Inr options"

text \<open>All trailing empty fragments removed.\<close>

definition without_trailing_empty :: "bytes list \<Rightarrow> bytes list" where
  "without_trailing_empty parts = rev (dropWhile (\<lambda>p. p = []) (rev parts))"

text \<open>The attribute \<open>mode\<close> of a request datagram.\<close>

fun mode_of :: "datagram \<Rightarrow> bytes" where
  "mode_of (RQ cls filename mode options) = mode"
| "mode_of _ = []"

text \<open>A datagram with the mode of a request in lowercase, and nothing else changed.\<close>

fun lowercased :: "datagram \<Rightarrow> datagram" where
  "lowercased (RQ cls filename mode options) = RQ cls filename (bytes_lower mode) options"
| "lowercased d = d"

text \<open>Encoding a datagram and decoding the bytes; an exception of either step is kept.\<close>

definition decode_encoded :: "datagram \<Rightarrow> tftp_error + datagram" where
  "decode_encoded p = (case to_wire p of Inl e \<Rightarrow> Inl e | Inr wire \<Rightarrow> decode wire)"

text \<open>
  A well-formed packet of the data model: block numbers are unsigned 16-bit, an error
  code is one of \<open>0..8\<close>, the names of an option map are distinct, and no field that the
  wire format terminates with NUL contains NUL.
\<close>

definition nul_free :: "bytes \<Rightarrow> bool" where
  "nul_free bs = (NUL \<notin> set bs)"

definition well_formed_options :: "options \<Rightarrow> bool" where
  "well_formed_options options =
     (distinct (map fst options)
      \<and> list_all (\<lambda>(name, val). nul_free name \<and> nul_free val) options)"

fun well_formed :: "datagram \<Rightarrow> bool" where
  "well_formed (RQ cls filename mode options) =
     (nul_free filename \<and> nul_free mode \<and> well_formed_options options)"
| "well_formed (OACK options) = well_formed_options options"
| "well_formed (DATA blocknum data) = (0 \<le> blocknum \<and> blocknum \<le> 65535)"
| "well_formed (ACK blocknum) = (0 \<le> blocknum \<and> blocknum \<le> 65535)"
| "well_formed (ERROR errorcode errmsg) = (0 \<le> errorcode \<and> errorcode \<le> 8 \<and> nul_free errmsg)"

text \<open>
  The packets whose bytes the decoder reads back as they are: the last option value of
  a request is not empty, and an ERROR message is empty only for code 0.
\<close>

fun wire_exact :: "datagram \<Rightarrow> bool" where
  "wire_exact (RQ cls filename mode options) = (options = [] \<or> snd (last options) \<noteq> [])"
| "wire_exact (ERROR errorcode errmsg) = (errmsg \<noteq> [] \<or> errorcode = 0)"
| "wire_exact d = True"

section \<open>Option processing and the TID guard of the bootstrap layer\<close>

text \<open>
  Modelled from the spec: \<open>tftp/session.py\<close> is missing, and with it \<open>MAX_BLOCK_SIZE\<close>;
  the spec gives the maximum block size as 65464.
\<close>

definition MAX_BLOCK_SIZE :: int where
  "MAX_BLOCK_SIZE = 65464"

text \<open>
  Modelled from the spec: the reading of an option value as an integer, which
  \<open>tftp/bootstrap.py\<close> (missing) does. A value is an integer when it is a non-empty run
  of ASCII decimal digits, with an optional sign in front; anything else is a
  non-integer (\<open>None\<close>).
\<close>

definition digit_value :: "char \<Rightarrow> int option" where
  "digit_value c = (let n = (of_char c :: nat) in
                     if 48 \<le> n \<and> n \<le> 57 then Some (int n - 48) else None)"

text \<open>
  Modelled from the spec: the value of a run of decimal digits, most significant first,
  for the integer reading of option values in \<open>tftp/bootstrap.py\<close> (missing).
\<close>

fun digits_value :: "bytes \<Rightarrow> int \<Rightarrow> int option" where
  "digits_value [] acc = Some acc"
| "digits_value (c # cs) acc =
     (case digit_value c of None \<Rightarrow> None | Some d \<Rightarrow> digits_value cs (10 * acc + d))"

text \<open>
  Modelled from the spec: whether an option value is an integer, and which, as
  \<open>tftp/bootstrap.py\<close> (missing) decides it.
\<close>

definition int_of_bytes :: "bytes \<Rightarrow> int option" where
  "int_of_bytes val =
     (case val of
        [] \<Rightarrow> None
      | c # cs \<Rightarrow>
          (if c = CHR ''-'' then (if cs = [] then None else map_option uminus (digits_value cs 0))
           else if c = CHR ''+'' then (if cs = [] then None else digits_value cs 0)
           else digits_value (c # cs) 0))"

text \<open>
  Modelled from the spec: the byte string that reports an integer in the acknowledged
  set (\<open>intToBytes\<close> in the tests), its decimal digits.
\<close>

function nat_digits :: "nat \<Rightarrow> bytes" where
  "nat_digits n = (if n < 10 then [char_of (48 + n)]
                   else nat_digits (n div 10) @ [char_of (48 + n mod 10)])"
  by pat_completeness auto
termination
  by (relation "measure id") auto

declare nat_digits.simps [simp del]

text \<open>
  Modelled from the spec: \<open>intToBytes\<close>, which \<open>tftp/bootstrap.py\<close> (missing) and the tests
  take from \<open>twisted.python.compat\<close>: the decimal digits of an integer, with its sign.
\<close>

definition intToBytes :: "int \<Rightarrow> bytes" where
  "intToBytes i = (if i < 0 then CHR ''-'' # nat_digits (nat (- i)) else nat_digits (nat i))"

text \<open>
  Modelled from the spec: the validation of each option by \<open>TFTPBootstrap\<close> in
  \<open>tftp/bootstrap.py\<close> (missing). \<open>blksize\<close>: an integer in \<open>[8, 65464]\<close>, reported clamped to
  the maximum; values outside the range and non-integers are dropped (\<open>None\<close>), as the
  test \<open>test_blksize\<close> asserts for 7, 65465 and \<open>foo\<close>. \<open>timeout\<close>: an integer in
  \<open>[1, 255]\<close>. \<open>tsize\<close>: a non-negative integer.
\<close>

definition option_blksize :: "bytes \<Rightarrow> bytes option" where
  "option_blksize val =
     (case int_of_bytes val of
        None \<Rightarrow> None
      | Some int_blksize \<Rightarrow>
          (if int_blksize < 8 \<or> int_blksize > 65464 then None
           else Some (intToBytes (min int_blksize MAX_BLOCK_SIZE))))"

text \<open>
  Modelled from the spec: the validation of \<open>timeout\<close> in \<open>tftp/bootstrap.py\<close> (missing),
  an integer in \<open>[1, 255]\<close>.
\<close>

definition option_timeout :: "bytes \<Rightarrow> bytes option" where
  "option_timeout val =
     (case int_of_bytes val of
        None \<Rightarrow> None
      | Some int_timeout \<Rightarrow>
          (if int_timeout < 1 \<or> int_timeout > 255 then None
           else Some (intToBytes int_timeout)))"

text \<open>
  Modelled from the spec: the validation of \<open>tsize\<close> in \<open>tftp/bootstrap.py\<close> (missing),
  a non-negative integer.
\<close>

definition option_tsize :: "bytes \<Rightarrow> bytes option" where
  "option_tsize val =
     (case int_of_bytes val of
        None \<Rightarrow> None
      | Some int_tsize \<Rightarrow> (if int_tsize < 0 then None else Some (intToBytes int_tsize)))"

text \<open>
  Modelled from the spec: \<open>TFTPBootstrap.processOptions\<close> of \<open>tftp/bootstrap.py\<close>
  (missing). The acknowledged map keeps the order of the options the peer sent and holds
  only the accepted ones; names are the lowercase \<open>blksize\<close>, \<open>timeout\<close> and \<open>tsize\<close>, and
  any other name is left out.
\<close>

definition process_option :: "bytes \<Rightarrow> bytes \<Rightarrow> bytes option" where
  "process_option name val =
     (if name = ''blksize'' then option_blksize val
      else if name = ''timeout'' then option_timeout val
      else if name = ''tsize'' then option_tsize val
      else None)"

text \<open>
  Modelled from the spec: the loop of \<open>processOptions\<close> in \<open>tftp/bootstrap.py\<close> (missing)
  over the options in the order the peer sent them.
\<close>

fun processOptions_loop :: "options \<Rightarrow> options \<Rightarrow> options" where
  "processOptions_loop [] accepted_options = accepted_options"
| "processOptions_loop ((name, val) # items) accepted_options =
     (case process_option name val of
        None \<Rightarrow> processOptions_loop items accepted_options
      | Some actual_value \<Rightarrow>
          processOptions_loop items (od_set accepted_options name actual_value))"

text \<open>
  Modelled from the spec: \<open>processOptions\<close> of \<open>tftp/bootstrap.py\<close> (missing), from an
  empty acknowledged map.
\<close>

definition processOptions :: "options \<Rightarrow> options" where
  "processOptions options = processOptions_loop options []"

text \<open>
  The attributes of a session that options change, with the defaults of \<open>MockSession\<close>
  in \<open>tftp/test/test_bootstrap.py\<close>.
\<close>

record session =
  block_size :: int
  timeout :: "int list"
  tsize :: "int option"

definition MockSession :: session where
  "MockSession = \<lparr>block_size = 512, timeout = [1, 3, 5], tsize = None\<rparr>"

text \<open>
  Modelled from the spec: \<open>TFTPBootstrap.applyOptions\<close> of \<open>tftp/bootstrap.py\<close> (missing).
  The acknowledged map is the only source of what the session applies: \<open>blksize\<close> sets
  the block size, \<open>timeout\<close> the schedule \<open>(v, v, v)\<close>, \<open>tsize\<close> the transfer size. A value
  that is not an integer cannot be applied (\<open>None\<close>).
\<close>

fun applyOptions :: "session \<Rightarrow> options \<Rightarrow> session option" where
  "applyOptions s [] = Some s"
| "applyOptions s ((opt_name, opt_val) # items) =
     (if opt_name = ''blksize''
      then (case int_of_bytes opt_val of
              None \<Rightarrow> None
            | Some v \<Rightarrow> applyOptions (s\<lparr>block_size := v\<rparr>) items)
      else if opt_name = ''timeout''
      then (case int_of_bytes opt_val of
              None \<Rightarrow> None
            | Some v \<Rightarrow> applyOptions (s\<lparr>timeout := [v, v, v]\<rparr>) items)
      else if opt_name = ''tsize''
      then (case int_of_bytes opt_val of
              None \<Rightarrow> None
            | Some v \<Rightarrow> applyOptions (s\<lparr>tsize := Some v\<rparr>) items)
      else applyOptions s items)"

text \<open>
  Modelled from the spec: the TID guard of \<open>TFTPBootstrap.datagramReceived\<close> in
  \<open>tftp/bootstrap.py\<close> (missing). A bootstrap is bound to the remote TID \<open>remote\<close>; the rest
  of its state, and what it does with a datagram of its bound peer, are those of the
  session it wraps, given here as the state \<open>inner\<close> and the function \<open>handle\<close>. A
  datagram from any other address is answered with an ERROR packet of code 5, built and
  encoded by \<open>ERRORDatagram.from_code\<close> and \<open>to_wire\<close>, sent to that address; the state
  stays as it is. The result is the new state and the datagrams written to the
  transport, each with its destination.
\<close>

type_synonym address = "string \<times> nat"

record 's bootstrap =
  remote :: address
  inner :: 's

text \<open>
  Modelled from the spec: the reply of the TID guard in \<open>tftp/bootstrap.py\<close> (missing),
  one ERROR datagram of code 5 written to the offending address.
\<close>

definition tid_unknown_reply :: "address \<Rightarrow> (bytes \<times> address) list" where
  "tid_unknown_reply addr =
     (case ERRORDatagram_from_code ERR_TID_UNKNOWN None of
        Inl e \<Rightarrow> []
      | Inr d \<Rightarrow> (case to_wire d of Inl e \<Rightarrow> [] | Inr wire \<Rightarrow> [(wire, addr)]))"

text \<open>
  Modelled from the spec: \<open>datagramReceived\<close> of \<open>tftp/bootstrap.py\<close> (missing), the
  guard in front of the processing of the bound peer's datagrams.
\<close>

definition datagramReceived ::
  "('s \<Rightarrow> bytes \<Rightarrow> 's \<times> (bytes \<times> address) list) \<Rightarrow> 's bootstrap \<Rightarrow> bytes \<Rightarrow> address
     \<Rightarrow> 's bootstrap \<times> (bytes \<times> address) list" where
  "datagramReceived handle b datagram addr =
     (if remote b \<noteq> addr then (b, tid_unknown_reply addr)
      else (case handle (inner b) datagram of
              (inner', written) \<Rightarrow> (b\<lparr>inner := inner'\<rparr>, written)))"

section \<open>Basic facts\<close>

lemma unpack_H_Some_iff: "(\<exists>n. unpack_H bs = Some n) \<longleftrightarrow> length bs = 2"
  by (auto simp: unpack_H_def split: list.splits)

lemma unpack_H_None_iff: "unpack_H bs = None \<longleftrightarrow> length bs \<noteq> 2"
  by (auto simp: unpack_H_def split: list.splits)

lemma unpack_H_two: "unpack_H [hi, lo] = Some (256 * of_char hi + of_char lo)"
  by (simp add: unpack_H_def)

lemma of_char_int_range: "0 \<le> (of_char c :: int) \<and> (of_char c :: int) < 256"
proof -
  have "(of_char c :: int) = int (of_char c)"
    by (simp add: of_nat_of_char)
  moreover have "(of_char c :: nat) < 256"
    by simp
  ultimately show ?thesis
    by linarith
qed

lemma unpack_H_range: "unpack_H bs = Some n \<Longrightarrow> 0 \<le> n \<and> n \<le> 65535"
proof -
  assume a: "unpack_H bs = Some n"
  then obtain hi lo where n: "n = 256 * of_char hi + of_char lo"
    by (auto simp: unpack_H_def split: list.splits)
  from of_char_int_range [of hi] of_char_int_range [of lo] n show ?thesis
    by linarith
qed

lemma pack_unpack_H: "unpack_H bs = Some n \<Longrightarrow> pack_H n = Some bs"
proof -
  assume a: "unpack_H bs = Some n"
  then obtain hi lo where bs: "bs = [hi, lo]" and n: "n = 256 * of_char hi + of_char lo"
    by (auto simp: unpack_H_def split: list.splits)
  have r: "0 \<le> n \<and> n \<le> 65535"
    using a by (rule unpack_H_range)
  have lo: "0 \<le> (of_char lo :: int) \<and> (of_char lo :: int) < 256"
    by (rule of_char_int_range)
  have d: "n div 256 = of_char hi"
    using lo n by simp
  have m: "n mod 256 = of_char lo"
    using lo n by simp
  show ?thesis
    using r by (simp add: pack_H_def d m bs)
qed

lemma unpack_pack_H: "pack_H n = Some bs \<Longrightarrow> unpack_H bs = Some n"
proof -
  assume a: "pack_H n = Some bs"
  then have r: "0 \<le> n \<and> n \<le> 65535" and bs: "bs = [char_of (n div 256), char_of (n mod 256)]"
    by (auto simp: pack_H_def split: if_splits)
  have "n div 256 < 256"
    using r by linarith
  moreover have "0 \<le> n div 256"
    using r by linarith
  ultimately have "(n div 256) mod 256 = n div 256"
    by simp
  then show ?thesis
    by (simp add: bs unpack_H_def)
qed

section \<open>ACK payloads\<close>

text \<open>
  Claim C7. Decoding an ACK payload succeeds exactly when the payload has exactly two
  bytes, and then returns the big-endian block number; a payload of any other length,
  shorter or longer, raises the payload-decode error.
\<close>

theorem ACK_from_wire_two_bytes:
  "ACKDatagram_from_wire payload =
     (if length payload = 2
      then Inr (ACK (256 * of_char (payload ! 0) + of_char (payload ! 1)))
      else Inl PayloadDecodeError)"
proof (cases "length payload = 2")
  case True
  then obtain hi lo where p: "payload = [hi, lo]"
    by (cases payload; cases "tl payload") auto
  show ?thesis
    by (simp add: p ACKDatagram_from_wire_def unpack_H_two ACKDatagram_init_def)
next
  case False
  then have "unpack_H payload = None"
    by (simp add: unpack_H_None_iff)
  with False show ?thesis
    by (simp add: ACKDatagram_from_wire_def)
qed

section \<open>Splitting at NUL\<close>

lemma split_bytes_nonempty: "split_bytes sep bs \<noteq> []"
  by (induction bs) (auto split: list.splits)

lemma hd_split_bytes: "hd (split_bytes sep bs) = takeWhile (\<lambda>c. c \<noteq> sep) bs"
  by (induction bs) (auto split: list.splits simp: split_bytes_nonempty)

lemma errors_defined_iff: "errors c \<noteq> None \<longleftrightarrow> 0 \<le> c \<and> c \<le> 8"
  unfolding errors_def errors_items_def ERR_NOT_DEFINED_def ERR_FILE_NOT_FOUND_def
    ERR_ACCESS_VIOLATION_def ERR_DISK_FULL_def ERR_ILLEGAL_OP_def ERR_TID_UNKNOWN_def
    ERR_FILE_EXISTS_def ERR_NO_SUCH_USER_def ERR_TERM_OPTION_def
  by auto


section \<open>DATA payloads\<close>

lemma DATA_from_wire_long:
  "DATADatagram_from_wire (hi # lo # rest) = Inr (DATA (256 * of_char hi + of_char lo) rest)"
  by (simp add: DATADatagram_from_wire_def unpack_H_two DATADatagram_init_def)

lemma DATA_from_wire_short:
  "length payload < 2 \<Longrightarrow> DATADatagram_from_wire payload = Inl PayloadDecodeError"
proof -
  assume "length payload < 2"
  then have "unpack_H (take 2 payload) = None"
    by (simp add: unpack_H_None_iff)
  then show ?thesis
    by (simp add: DATADatagram_from_wire_def)
qed

lemma to_wire_DATA_unpacked:
  "to_wire (DATA (256 * of_char hi + of_char lo) rest) = Inr ([CHR 0x00, CHR 0x03] @ hi # lo # rest)"
proof -
  have "pack_H (256 * of_char hi + of_char lo) = Some [hi, lo]"
    by (rule pack_unpack_H) (rule unpack_H_two)
  moreover have "pack_H OP_DATA = Some [CHR 0x00, CHR 0x03]"
    by (simp add: pack_H_def OP_DATA_def char_of_def)
  ultimately show ?thesis
    by (simp add: pack_HH_def)
qed

text \<open>
  Claim C9. For every payload of at least two bytes, \<open>DATADatagram.from_wire\<close> returns
  the datagram whose block number is the big-endian value of the first two bytes and
  whose data is the rest, and re-encoding it with \<open>to_wire\<close> gives the two-byte opcode 3
  followed by the payload unchanged, whatever the data length and the block number.
  For every payload of fewer than two bytes \<open>DATADatagram.from_wire\<close> raises the
  payload-decode error.
\<close>

theorem DATA_from_wire_to_wire:
  "(2 \<le> length payload \<longrightarrow>
      DATADatagram_from_wire payload
        = Inr (DATA (256 * of_char (payload ! 0) + of_char (payload ! 1)) (drop 2 payload))
      \<and> (case DATADatagram_from_wire payload of Inl e \<Rightarrow> Inl e | Inr d \<Rightarrow> to_wire d)
        = Inr ([CHR 0x00, CHR 0x03] @ payload))
   \<and> (length payload < 2 \<longrightarrow> DATADatagram_from_wire payload = Inl PayloadDecodeError)"
proof (cases "2 \<le> length payload")
  case True
  then obtain hi lo rest where p: "payload = hi # lo # rest"
    by (cases payload; cases "tl payload") auto
  show ?thesis
    by (simp add: p DATA_from_wire_long to_wire_DATA_unpacked del: to_wire.simps)
next
  case False
  then show ?thesis
    by (simp add: DATA_from_wire_short)
qed

theorem DATA_from_wire_to_wire_witness:
  "DATADatagram_from_wire [CHR 0x01, CHR 0x02, CHR ''h'', CHR ''i''] = Inr (DATA 258 ''hi'')
   \<and> (case DATADatagram_from_wire [CHR 0x01, CHR 0x02, CHR ''h'', CHR ''i''] of
         Inl e \<Rightarrow> Inl e | Inr d \<Rightarrow> to_wire d)
       = Inr [CHR 0x00, CHR 0x03, CHR 0x01, CHR 0x02, CHR ''h'', CHR ''i'']
   \<and> DATADatagram_from_wire [CHR 0x07] = Inl PayloadDecodeError"
  using DATA_from_wire_to_wire [of "[CHR 0x01, CHR 0x02, CHR ''h'', CHR ''i'']"]
    DATA_from_wire_to_wire [of "[CHR 0x07]"]
  by (auto simp del: to_wire.simps)


section \<open>ERROR payloads\<close>

lemma ERROR_from_wire_short:
  "length payload < 2 \<Longrightarrow> ERRORDatagram_from_wire payload = Inl PayloadDecodeError"
proof -
  assume "length payload < 2"
  then have "unpack_H (take 2 payload) = None"
    by (simp add: unpack_H_None_iff)
  then show ?thesis
    by (simp add: ERRORDatagram_from_wire_def)
qed

lemma ERROR_from_wire_long:
  "ERRORDatagram_from_wire (hi # lo # rest) =
     (let errorcode = 256 * of_char hi + of_char lo;
          errmsg = takeWhile (\<lambda>c. c \<noteq> NUL) rest in
      if \<not> (0 \<le> errorcode \<and> errorcode \<le> 8) then Inl (InvalidErrorcodeError errorcode)
      else if errmsg = [] then Inr (ERROR errorcode (the (errors errorcode)))
      else Inr (ERROR errorcode errmsg))"
proof -
  obtain p ps where sp: "split_bytes NUL rest = p # ps"
    using split_bytes_nonempty [of NUL rest] by (cases "split_bytes NUL rest") auto
  have p: "p = takeWhile (\<lambda>c. c \<noteq> NUL) rest"
    using hd_split_bytes [of NUL rest] sp by simp
  show ?thesis
    using errors_defined_iff [of "256 * of_char hi + of_char lo"]
    by (auto simp: ERRORDatagram_from_wire_def unpack_H_two sp p ERRORDatagram_init_def Let_def)
qed


text \<open>
  Claim C6. For every ERROR payload that holds the two bytes of an error code,
  \<open>ERRORDatagram.from_wire\<close> raises the invalid-errorcode error (carrying the code) exactly
  when the big-endian code is outside \<open>0..8\<close>, and raises nothing otherwise. When the code
  is valid and the message is absent (nothing follows the code) or empty (NUL follows
  the code), the datagram carries the entry of the table \<open>errors\<close> for that code; the
  table holds the empty message for 0, the seven messages of codes 1 to 7, and
  "Terminate transfer due to option negotiation" for 8.
\<close>

theorem ERROR_from_wire_errorcode:
  "(ERRORDatagram_from_wire (hi # lo # rest) = Inl (InvalidErrorcodeError c)
      \<longleftrightarrow> c = 256 * of_char hi + of_char lo \<and> \<not> (0 \<le> c \<and> c \<le> 8))
   \<and> ((\<exists>e. ERRORDatagram_from_wire (hi # lo # rest) = Inl e)
      \<longleftrightarrow> \<not> ((0::int) \<le> 256 * of_char hi + of_char lo \<and> 256 * of_char hi + of_char lo \<le> (8::int)))
   \<and> ((0::int) \<le> 256 * of_char hi + of_char lo \<and> 256 * of_char hi + of_char lo \<le> (8::int)
        \<and> (rest = [] \<or> hd rest = NUL)
      \<longrightarrow> (\<exists>m. errors (256 * of_char hi + of_char lo) = Some m
             \<and> ERRORDatagram_from_wire (hi # lo # rest)
                 = Inr (ERROR (256 * of_char hi + of_char lo) m)))
   \<and> errors 0 = Some []
   \<and> errors 1 = Some ''File not found''
   \<and> errors 2 = Some ''Access violation''
   \<and> errors 3 = Some ''Disk full or allocation exceeded''
   \<and> errors 4 = Some ''Illegal TFTP operation''
   \<and> errors 5 = Some ''Unknown transfer ID''
   \<and> errors 6 = Some ''File already exists''
   \<and> errors 7 = Some ''No such user''
   \<and> errors 8 = Some ''Terminate transfer due to option negotiation''"
proof -
  let ?code = "256 * of_char hi + (of_char lo :: int)"
  have tbl: "errors 0 = Some [] \<and> errors 1 = Some ''File not found''
     \<and> errors 2 = Some ''Access violation''
     \<and> errors 3 = Some ''Disk full or allocation exceeded''
     \<and> errors 4 = Some ''Illegal TFTP operation''
     \<and> errors 5 = Some ''Unknown transfer ID''
     \<and> errors 6 = Some ''File already exists''
     \<and> errors 7 = Some ''No such user''
     \<and> errors 8 = Some ''Terminate transfer due to option negotiation''"
    unfolding errors_def errors_items_def ERR_NOT_DEFINED_def ERR_FILE_NOT_FOUND_def
      ERR_ACCESS_VIOLATION_def ERR_DISK_FULL_def ERR_ILLEGAL_OP_def ERR_TID_UNKNOWN_def
      ERR_FILE_EXISTS_def ERR_NO_SUCH_USER_def ERR_TERM_OPTION_def
    by simp
  have a: "ERRORDatagram_from_wire (hi # lo # rest) = Inl (InvalidErrorcodeError c)
      \<longleftrightarrow> c = ?code \<and> \<not> (0 \<le> c \<and> c \<le> 8)"
    by (auto simp: ERROR_from_wire_long Let_def)
  have b: "(\<exists>e. ERRORDatagram_from_wire (hi # lo # rest) = Inl e)
      \<longleftrightarrow> \<not> (0 \<le> ?code \<and> ?code \<le> 8)"
    by (auto simp: ERROR_from_wire_long Let_def)
  have c: "0 \<le> ?code \<and> ?code \<le> 8 \<and> (rest = [] \<or> hd rest = NUL)
      \<longrightarrow> (\<exists>m. errors ?code = Some m
             \<and> ERRORDatagram_from_wire (hi # lo # rest) = Inr (ERROR ?code m))"
  proof (intro impI)
    assume h: "0 \<le> ?code \<and> ?code \<le> 8 \<and> (rest = [] \<or> hd rest = NUL)"
    then have e: "takeWhile (\<lambda>c. c \<noteq> NUL) rest = []"
      by (cases rest) auto
    from h have "errors ?code \<noteq> None"
      using errors_defined_iff [of ?code] by blast
    then obtain m where m: "errors ?code = Some m"
      by auto
    with h e show "\<exists>m. errors ?code = Some m
             \<and> ERRORDatagram_from_wire (hi # lo # rest) = Inr (ERROR ?code m)"
      by (simp add: ERROR_from_wire_long Let_def)
  qed
  from a b c tbl show ?thesis
    by blast
qed

theorem ERROR_from_wire_errorcode_witness:
  "ERRORDatagram_from_wire [CHR 0x00, CHR 0x05] = Inr (ERROR 5 ''Unknown transfer ID'')
   \<and> ERRORDatagram_from_wire [CHR 0x00, CHR 0x08, NUL, CHR ''x'']
       = Inr (ERROR 8 ''Terminate transfer due to option negotiation'')
   \<and> ERRORDatagram_from_wire [CHR 0x00, CHR 0x09, CHR ''x'', NUL] = Inl (InvalidErrorcodeError 9)"
  using ERROR_from_wire_errorcode [of "CHR 0x00" "CHR 0x05" "[]" 0]
    ERROR_from_wire_errorcode [of "CHR 0x00" "CHR 0x08" "[NUL, CHR ''x'']" 0]
    ERROR_from_wire_errorcode [of "CHR 0x00" "CHR 0x09" "[CHR ''x'', NUL]" 9]
  by auto

section \<open>Option parsing\<close>

lemma strip_trailing_empty_snoc:
  "strip_trailing_empty (ps @ [p]) = (if p = [] then strip_trailing_empty ps else ps @ [p])"
  by (subst strip_trailing_empty.simps) simp

lemma strip_trailing_empty_Nil: "strip_trailing_empty [] = []"
  by (subst strip_trailing_empty.simps) simp

lemma strip_trailing_empty_eq: "strip_trailing_empty parts = without_trailing_empty parts"
  by (induction parts rule: rev_induct)
    (simp_all add: strip_trailing_empty_Nil strip_trailing_empty_snoc without_trailing_empty_def)

lemma od_contains_iff: "od_contains od k \<longleftrightarrow> k \<in> fst ` set od"
  by (simp add: od_contains_def map_of_eq_None_iff)

lemma od_set_new: "k \<notin> fst ` set od \<Longrightarrow> od_set od k v = od @ [(k, v)]"
  by (induction od) auto

lemma options_loop_pairs_loop:
  "even (length pre) \<Longrightarrow> even (length ps) \<Longrightarrow>
     options_loop (pre @ ps) (enumerate (length pre div 2) (stride2 ps)) acc = pairs_loop ps acc"
proof (induction ps arbitrary: pre acc rule: pairs_of.induct)
  case (1 name val rest)
  let ?k = "length pre div 2"
  have k: "?k * 2 = length pre"
    using "1.prems"(1) by simp
  have ev: "even (length (pre @ [name, val]))" "even (length rest)"
    using "1.prems" by simp_all
  have suc: "length (pre @ [name, val]) div 2 = Suc ?k"
    using "1.prems"(1) by simp
  have ih: "options_loop (pre @ name # val # rest) (enumerate (Suc ?k) (stride2 rest)) acc'
              = pairs_loop rest acc'" for acc'
    using "1.IH" [OF ev, of acc'] suc by simp
  have nth: "(pre @ name # val # rest) ! Suc (length pre) = val"
    by (simp add: nth_append)
  show ?case
    by (simp add: k nth ih)
qed simp_all

lemma pairs_loop_Inl:
  "pairs_loop ps acc = Inl e \<Longrightarrow> \<exists>n. e = OptionsDecodeError (DuplicateOption n)"
  by (induction ps acc rule: pairs_loop.induct) (auto split: if_splits)

lemma pairs_loop_distinct:
  "distinct (map fst (acc @ pairs_of ps)) \<Longrightarrow> pairs_loop ps acc = Inr (acc @ pairs_of ps)"
  by (induction ps acc rule: pairs_loop.induct) (auto simp: od_contains_iff od_set_new)

lemma pairs_loop_duplicate:
  "distinct (map fst acc) \<Longrightarrow> \<not> distinct (map fst (acc @ pairs_of ps)) \<Longrightarrow>
     \<exists>n. pairs_loop ps acc = Inl (OptionsDecodeError (DuplicateOption n))"
proof (induction ps acc rule: pairs_loop.induct)
  case (1 name val rest options)
  show ?case
  proof (cases "od_contains options name")
    case True
    then show ?thesis by simp
  next
    case False
    then have new: "name \<notin> fst ` set options"
      by (simp add: od_contains_iff)
    have d: "distinct (map fst (od_set options name val))"
      using new "1.prems"(1) by (simp add: od_set_new)
    have nd: "\<not> distinct (map fst (od_set options name val @ pairs_of rest))"
      using new "1.prems"(2) by (simp add: od_set_new)
    from "1.IH" [OF False d nd] False show ?thesis
      by simp
  qed
qed simp_all

text \<open>The part of both \<open>from_wire\<close> methods after the fragments are prepared.\<close>

lemma options_loop_even:
  assumes "even (length parts)"
  shows "options_loop parts (enumerate 0 (stride2 parts)) [] =
           (if distinct (map fst (pairs_of parts)) then Inr (pairs_of parts)
            else options_loop parts (enumerate 0 (stride2 parts)) [])"
    and "\<not> distinct (map fst (pairs_of parts)) \<Longrightarrow>
           \<exists>n. options_loop parts (enumerate 0 (stride2 parts)) []
                 = Inl (OptionsDecodeError (DuplicateOption n))"
proof -
  have eq: "options_loop parts (enumerate 0 (stride2 parts)) [] = pairs_loop parts []"
    using options_loop_pairs_loop [of "[]" parts "[]"] assms by simp
  show "options_loop parts (enumerate 0 (stride2 parts)) [] =
           (if distinct (map fst (pairs_of parts)) then Inr (pairs_of parts)
            else options_loop parts (enumerate 0 (stride2 parts)) [])"
    using pairs_loop_distinct [of "[]" parts] by (simp add: eq)
  show "\<exists>n. options_loop parts (enumerate 0 (stride2 parts)) []
                 = Inl (OptionsDecodeError (DuplicateOption n))"
    if "\<not> distinct (map fst (pairs_of parts))"
    using pairs_loop_duplicate [of "[]" parts] that by (simp add: eq)
qed

lemma split_bytes_length_two:
  "2 \<le> length (split_bytes NUL payload) \<Longrightarrow>
     split_bytes NUL payload
       = split_bytes NUL payload ! 0 # split_bytes NUL payload ! 1 # drop 2 (split_bytes NUL payload)"
  by (cases "split_bytes NUL payload"; cases "tl (split_bytes NUL payload)") auto

lemma RQ_from_wire_fields:
  assumes "split_bytes NUL payload = filename # mode # popped"
  shows "RQDatagram_from_wire cls payload =
     (if odd (length (without_trailing_empty popped))
      then Inl (OptionsDecodeError (NoValue (last (without_trailing_empty popped))))
      else (case options_loop (without_trailing_empty popped)
                   (enumerate 0 (stride2 (without_trailing_empty popped))) [] of
              Inl e \<Rightarrow> Inl e
            | Inr options \<Rightarrow> Inr (RQ cls filename (bytes_lower mode) options)))"
  by (simp add: RQDatagram_from_wire_def assms strip_trailing_empty_eq Let_def
      RQDatagram_init_def odd_iff_mod_2_eq_one cong: sum.case_cong)

text \<open>
  What \<open>RQDatagram.from_wire\<close> does, in terms of the fragments between the NUL bytes of
  the body. It raises the payload-decode error exactly when there are fewer than two
  fragments, that is, when the body holds no NUL at all. Otherwise, with all trailing
  empty fragments removed from what follows the first two, it raises an options-decode
  error exactly when the number of remaining fragments is odd or an option name
  repeats, and otherwise returns the request with the remaining fragments as its
  option pairs.
\<close>

lemma RQ_from_wire_errors:
  assumes "parts = split_bytes NUL payload"
    and "rest = without_trailing_empty (drop 2 parts)"
  shows "(RQDatagram_from_wire cls payload = Inl PayloadDecodeError \<longleftrightarrow> length parts < 2)
    \<and> (2 \<le> length parts \<longrightarrow>
          ((\<exists>r. RQDatagram_from_wire cls payload = Inl (OptionsDecodeError r))
             \<longleftrightarrow> odd (length rest) \<or> \<not> distinct (map fst (pairs_of rest))))
    \<and> (2 \<le> length parts \<and> even (length rest) \<and> distinct (map fst (pairs_of rest)) \<longrightarrow>
          RQDatagram_from_wire cls payload
            = Inr (RQ cls (parts ! 0) (bytes_lower (parts ! 1)) (pairs_of rest)))"
proof (cases "2 \<le> length parts")
  case False
  then have "RQDatagram_from_wire cls payload = Inl PayloadDecodeError"
    using assms(1)
    by (cases "split_bytes NUL payload"; cases "tl (split_bytes NUL payload)")
      (auto simp: RQDatagram_from_wire_def)
  with False show ?thesis by simp
next
  case True
  then have sp: "split_bytes NUL payload = parts ! 0 # parts ! 1 # drop 2 parts"
    using split_bytes_length_two [of payload] assms(1) by simp
  note fw = RQ_from_wire_fields [OF sp, of cls, folded assms(2)]
  show ?thesis
  proof (cases "odd (length rest)")
    case odd: True
    with True fw show ?thesis by auto
  next
    case even: False
    show ?thesis
    proof (cases "distinct (map fst (pairs_of rest))")
      case d: True
      then have "options_loop rest (enumerate 0 (stride2 rest)) [] = Inr (pairs_of rest)"
        using options_loop_even(1) [of rest] even by simp
      with True even d fw show ?thesis by simp
    next
      case nd: False
      then obtain n where
        "options_loop rest (enumerate 0 (stride2 rest)) [] = Inl (OptionsDecodeError (DuplicateOption n))"
        using options_loop_even(2) [of rest] even by auto
      with True even nd fw show ?thesis by simp
    qed
  qed
qed

lemma RQ_from_wire_errors_examples:
  "RQDatagram_from_wire RRQDatagram
       (''f'' @ [NUL] @ ''Octet'' @ [NUL] @ ''blksize'' @ [NUL] @ ''8'' @ [NUL, NUL])
     = Inr (RQ RRQDatagram ''f'' ''octet'' [(''blksize'', ''8'')])
   \<and> RQDatagram_from_wire WRQDatagram ''f'' = Inl PayloadDecodeError
   \<and> (\<exists>r. RQDatagram_from_wire WRQDatagram
             (''f'' @ [NUL] @ ''octet'' @ [NUL] @ ''a'' @ [NUL] @ ''1'' @ [NUL] @ ''a'' @ [NUL] @ ''2'' @ [NUL])
           = Inl (OptionsDecodeError r))"
proof -
  have lo: "bytes_lower ''Octet'' = ''octet''"
    by code_simp
  have 1: "RQDatagram_from_wire RRQDatagram
       (''f'' @ [NUL] @ ''Octet'' @ [NUL] @ ''blksize'' @ [NUL] @ ''8'' @ [NUL, NUL])
     = Inr (RQ RRQDatagram ''f'' ''octet'' [(''blksize'', ''8'')])"
    using RQ_from_wire_errors [OF refl refl, where cls = RRQDatagram and payload =
        "''f'' @ [NUL] @ ''Octet'' @ [NUL] @ ''blksize'' @ [NUL] @ ''8'' @ [NUL, NUL]"]
    by (simp add: NUL_def without_trailing_empty_def lo)
  have 2: "RQDatagram_from_wire WRQDatagram ''f'' = Inl PayloadDecodeError"
    using RQ_from_wire_errors [OF refl refl, where cls = WRQDatagram and payload = "''f''"]
    by (simp add: NUL_def)
  have 3: "\<exists>r. RQDatagram_from_wire WRQDatagram
             (''f'' @ [NUL] @ ''octet'' @ [NUL] @ ''a'' @ [NUL] @ ''1'' @ [NUL] @ ''a'' @ [NUL] @ ''2'' @ [NUL])
           = Inl (OptionsDecodeError r)"
    using RQ_from_wire_errors [OF refl refl, where cls = WRQDatagram and payload =
        "''f'' @ [NUL] @ ''octet'' @ [NUL] @ ''a'' @ [NUL] @ ''1'' @ [NUL] @ ''a'' @ [NUL] @ ''2'' @ [NUL]"]
    by (simp add: NUL_def without_trailing_empty_def)
  from 1 2 3 show ?thesis by blast
qed

text \<open>
  Claim C5. The claim is that decoding an RRQ/WRQ body, a sequence of NUL-terminated
  byte strings, raises the payload-decode error when the body holds fewer than two
  fields, and otherwise strips all trailing empty fragments and raises an options-decode
  error exactly for an odd number of remaining fields or a repeated option name. On the
  body \<open>foo NUL\<close>, which holds the one terminated field \<open>foo\<close> and no mode,
  \<open>RQDatagram.from_wire\<close> raises nothing: it returns the request with filename \<open>foo\<close>, the
  empty mode and no options, and so does the decoder on the whole datagram. Only a body
  without any NUL, such as \<open>foo\<close>, raises the payload-decode error.
\<close>

theorem RQ_from_wire_one_field:
  "RQDatagram_from_wire RRQDatagram (''foo'' @ [NUL]) = Inr (RQ RRQDatagram ''foo'' [] [])
   \<and> decode ([CHR 0x00, CHR 0x01] @ ''foo'' @ [NUL]) = Inr (RQ RRQDatagram ''foo'' [] [])
   \<and> RQDatagram_from_wire RRQDatagram ''foo'' = Inl PayloadDecodeError"
  by code_simp

section \<open>OACK payloads against request options\<close>

text \<open>
  Claim C4. The claim is that \<open>OACKDatagram.from_wire\<close> gives, on every payload, what the
  option parsing of \<open>RQDatagram.from_wire\<close> gives on the same bytes after filename and
  mode. On the payload \<open>a NUL NUL\<close> the two differ: \<open>OACKDatagram.from_wire\<close> removes one
  trailing empty fragment and returns the option \<open>a\<close> with the empty value, while
  \<open>RQDatagram.from_wire\<close> removes all of them and raises the options-decode error for
  the name \<open>a\<close> left without a value.
\<close>

theorem OACK_from_wire_strips_once:
  "OACKDatagram_from_wire (''a'' @ [NUL, NUL]) = Inr (OACK [(''a'', [])])
   \<and> RQDatagram_from_wire RRQDatagram (''f'' @ [NUL] @ ''octet'' @ [NUL] @ ''a'' @ [NUL, NUL])
       = Inl (OptionsDecodeError (NoValue ''a''))"
  by code_simp

section \<open>The mode of a request\<close>

lemma lower_byte_not_upper: "\<not> is_upper_byte (lower_byte c)"
proof (cases "65 \<le> (of_char c :: nat) \<and> (of_char c :: nat) \<le> 90")
  case True
  then have "(of_char c + 32 :: nat) mod 256 = of_char c + 32"
    by simp
  with True show ?thesis
    by (simp add: lower_byte_def is_upper_byte_def Let_def)
next
  case False
  then show ?thesis
    by (auto simp: lower_byte_def is_upper_byte_def Let_def)
qed

lemma bytes_lower_no_upper: "list_all (\<lambda>c. \<not> is_upper_byte c) (bytes_lower bs)"
  by (simp add: bytes_lower_def list_all_iff lower_byte_not_upper)

lemma RQ_from_wire_init:
  "RQDatagram_from_wire cls payload = Inr d \<Longrightarrow>
     \<exists>filename mode options. d = RQDatagram_init cls filename mode options"
  by (auto simp: RQDatagram_from_wire_def Let_def split: list.splits if_splits sum.splits)

lemma pack_H_rq_opcode: "pack_H (rq_opcode cls) = Some [CHR 0x00, char_of (rq_opcode cls)]"
  by (cases cls) (simp_all add: pack_H_def OP_RRQ_def OP_WRQ_def char_of_def)

text \<open>
  Claim C10. The constructor of a request datagram stores the lowercased mode, so the
  mode of every datagram it builds, and of every datagram \<open>from_wire\<close> returns (which
  calls the constructor), holds no uppercase ASCII letter; and \<open>to_wire\<close> of a datagram
  built from any mode emits that mode lowercased.
\<close>

theorem RQ_mode_lowercase:
  "mode_of (RQDatagram_init cls filename mode options) = bytes_lower mode
   \<and> list_all (\<lambda>c. \<not> is_upper_byte c) (mode_of (RQDatagram_init cls filename mode options))
   \<and> (RQDatagram_from_wire cls payload = Inr d \<longrightarrow>
        list_all (\<lambda>c. \<not> is_upper_byte c) (mode_of d))
   \<and> to_wire (RQDatagram_init cls filename mode options)
       = Inr ([CHR 0x00, char_of (rq_opcode cls)] @ filename @ [NUL] @ bytes_lower mode @ [NUL]
              @ (if options = [] then [] else join_bytes [NUL] (chain_items options) @ [NUL]))"
proof -
  have a: "mode_of (RQDatagram_init cls filename mode options) = bytes_lower mode"
    by (simp add: RQDatagram_init_def)
  have b: "RQDatagram_from_wire cls payload = Inr d \<longrightarrow>
        list_all (\<lambda>c. \<not> is_upper_byte c) (mode_of d)"
  proof
    assume "RQDatagram_from_wire cls payload = Inr d"
    then obtain f m opts where "d = RQDatagram_init cls f m opts"
      using RQ_from_wire_init by blast
    then show "list_all (\<lambda>c. \<not> is_upper_byte c) (mode_of d)"
      by (simp add: RQDatagram_init_def bytes_lower_no_upper)
  qed
  have c: "to_wire (RQDatagram_init cls filename mode options)
       = Inr ([CHR 0x00, char_of (rq_opcode cls)] @ filename @ [NUL] @ bytes_lower mode @ [NUL]
              @ (if options = [] then [] else join_bytes [NUL] (chain_items options) @ [NUL]))"
    by (simp add: RQDatagram_init_def pack_H_rq_opcode)
  from a b c show ?thesis
    by (simp add: bytes_lower_no_upper)
qed

theorem RQ_mode_lowercase_witness:
  "mode_of (RQDatagram_init RRQDatagram ''foo'' ''NetASCiI'' []) = ''netascii''
   \<and> RQDatagram_from_wire RRQDatagram
         [CHR ''f'', CHR ''o'', CHR ''o'', NUL, CHR ''O'', CHR ''C'', CHR ''T'', CHR ''E'', CHR ''T'', NUL]
       = Inr (RQ RRQDatagram ''foo'' ''octet'' [])
   \<and> list_all (\<lambda>c. \<not> is_upper_byte c) ''octet''
   \<and> to_wire (RQDatagram_init RRQDatagram ''foo'' ''NetASCiI'' [])
       = Inr ([CHR 0x00, CHR 0x01] @ ''foo'' @ [NUL] @ ''netascii'' @ [NUL])"
proof -
  have fw: "RQDatagram_from_wire RRQDatagram
         [CHR ''f'', CHR ''o'', CHR ''o'', NUL, CHR ''O'', CHR ''C'', CHR ''T'', CHR ''E'', CHR ''T'', NUL]
       = Inr (RQ RRQDatagram ''foo'' ''octet'' [])"
    by code_simp
  have lo: "bytes_lower ''NetASCiI'' = ''netascii''"
    by code_simp
  have op: "char_of OP_RRQ = CHR 0x01"
    by code_simp
  show ?thesis
    using RQ_mode_lowercase [of RRQDatagram "''foo''" "''NetASCiI''" "[]"
        "[CHR ''f'', CHR ''o'', CHR ''o'', NUL, CHR ''O'', CHR ''C'', CHR ''T'', CHR ''E'', CHR ''T'', NUL]"
        "RQ RRQDatagram ''foo'' ''octet'' []"]
    by (simp add: fw lo op del: to_wire.simps)
qed

section \<open>Encoding and decoding\<close>

lemma split_bytes_no_sep: "sep \<notin> set x \<Longrightarrow> split_bytes sep x = [x]"
  by (induction x) auto

lemma split_bytes_append:
  "sep \<notin> set x \<Longrightarrow> split_bytes sep (x @ sep # rest) = x # split_bytes sep rest"
  by (induction x) auto

lemma join_bytes_Cons:
  "xs \<noteq> [] \<Longrightarrow> join_bytes sep (x # xs) = x @ sep @ join_bytes sep xs"
  by (cases xs) auto

lemma split_join_terminated:
  "xs \<noteq> [] \<Longrightarrow> list_all nul_free xs \<Longrightarrow>
     split_bytes NUL (join_bytes [NUL] xs @ [NUL]) = xs @ [[]]"
proof (induction xs)
  case Nil
  then show ?case by simp
next
  case (Cons x xs)
  then have x: "NUL \<notin> set x"
    by (simp add: nul_free_def)
  show ?case
  proof (cases "xs = []")
    case True
    then show ?thesis
      using split_bytes_append [OF x, of "[]"] by simp
  next
    case False
    then have "split_bytes NUL (join_bytes [NUL] xs @ [NUL]) = xs @ [[]]"
      using Cons by simp
    then show ?thesis
      using split_bytes_append [OF x, of "join_bytes [NUL] xs @ [NUL]"] False
      by (simp add: join_bytes_Cons)
  qed
qed

lemma pairs_of_chain_items: "pairs_of (chain_items options) = options"
  by (induction options) (auto simp: chain_items_def)

lemma even_length_chain_items: "even (length (chain_items options))"
  by (induction options) (auto simp: chain_items_def)

lemma chain_items_Nil_iff: "chain_items options = [] \<longleftrightarrow> options = []"
  by (cases options) (auto simp: chain_items_def)

lemma last_chain_items: "options \<noteq> [] \<Longrightarrow> last (chain_items options) = snd (last options)"
  by (cases options rule: rev_cases) (auto simp: chain_items_def)

lemma nul_free_chain_items:
  "list_all (\<lambda>(name, val). nul_free name \<and> nul_free val) options \<Longrightarrow>
     list_all nul_free (chain_items options)"
  by (induction options) (auto simp: chain_items_def)

lemma without_trailing_empty_snoc_empty:
  "without_trailing_empty (xs @ [[]]) = without_trailing_empty xs"
  by (simp add: without_trailing_empty_def)

lemma without_trailing_empty_id:
  "xs = [] \<or> last xs \<noteq> [] \<Longrightarrow> without_trailing_empty xs = xs"
  by (induction xs rule: rev_induct) (auto simp: without_trailing_empty_def)

lemma decode_opcode:
  "0 \<le> n \<Longrightarrow> n < 256 \<Longrightarrow>
     decode ([CHR 0x00, char_of n] @ payload) = TFTPDatagramFactory n payload"
  by (simp add: decode_def split_opcode_def unpack_H_two)

lemma options_loop_chain_items:
  "distinct (map fst options) \<Longrightarrow>
     options_loop (chain_items options) (enumerate 0 (stride2 (chain_items options))) []
       = Inr options"
  using options_loop_even(1) [OF even_length_chain_items, of options]
  by (simp add: pairs_of_chain_items)

lemma RQ_decode_encoded:
  assumes "well_formed (RQ cls filename mode options)"
    and "wire_exact (RQ cls filename mode options)"
  shows "decode_encoded (RQ cls filename mode options)
           = Inr (RQ cls filename (bytes_lower mode) options)"
proof -
  have f: "NUL \<notin> set filename" and m: "NUL \<notin> set mode"
    and d: "distinct (map fst options)"
    and nf: "list_all nul_free (chain_items options)"
    using assms(1) by (simp_all add: nul_free_def well_formed_options_def nul_free_chain_items)
  have op: "0 \<le> rq_opcode cls" "rq_opcode cls < 256"
    by (cases cls; simp add: OP_RRQ_def OP_WRQ_def)+
  have fac: "TFTPDatagramFactory (rq_opcode cls) payload = RQDatagram_from_wire cls payload"
    for payload
    by (cases cls) (simp_all add: TFTPDatagramFactory_def OP_RRQ_def OP_WRQ_def)
  show ?thesis
  proof (cases "options = []")
    case True
    have sp: "split_bytes NUL (filename @ NUL # mode @ [NUL]) = filename # mode # [[]]"
      using split_bytes_append [OF f, of "mode @ [NUL]"] split_bytes_append [OF m, of "[]"]
      by simp
    have wt: "without_trailing_empty [[]] = []"
      by (simp add: without_trailing_empty_def)
    have "RQDatagram_from_wire cls (filename @ NUL # mode @ [NUL])
            = Inr (RQ cls filename (bytes_lower mode) [])"
      by (simp add: RQ_from_wire_fields [OF sp] wt)
    then show ?thesis
      using decode_opcode [OF op, of "filename @ NUL # mode @ [NUL]"] True
      by (simp add: decode_encoded_def pack_H_rq_opcode fac)
  next
    case False
    then have ci: "chain_items options \<noteq> []"
      by (simp add: chain_items_Nil_iff)
    let ?tail = "join_bytes [NUL] (chain_items options) @ [NUL]"
    have sp: "split_bytes NUL (filename @ NUL # mode @ NUL # ?tail)
                = filename # mode # (chain_items options @ [[]])"
      using split_bytes_append [OF f, of "mode @ NUL # ?tail"]
        split_bytes_append [OF m, of ?tail] split_join_terminated [OF ci nf]
      by simp
    have "last (chain_items options) \<noteq> []"
      using assms(2) False by (simp add: last_chain_items)
    then have wt: "without_trailing_empty (chain_items options @ [[]]) = chain_items options"
      by (simp add: without_trailing_empty_snoc_empty without_trailing_empty_id)
    have "RQDatagram_from_wire cls (filename @ NUL # mode @ NUL # ?tail)
            = Inr (RQ cls filename (bytes_lower mode) options)"
      by (simp add: RQ_from_wire_fields [OF sp] wt even_length_chain_items
          options_loop_chain_items [OF d])
    then show ?thesis
      using decode_opcode [OF op, of "filename @ NUL # mode @ NUL # ?tail"] False
      by (simp add: decode_encoded_def pack_H_rq_opcode fac)
  qed
qed

lemma OACK_decode_encoded:
  assumes "well_formed (OACK options)"
  shows "decode_encoded (OACK options) = Inr (OACK options)"
proof -
  have d: "distinct (map fst options)"
    and nf: "list_all nul_free (chain_items options)"
    using assms by (simp_all add: well_formed_options_def nul_free_chain_items)
  have op: "pack_H OP_OACK = Some [CHR 0x00, char_of OP_OACK]"
    by (simp add: pack_H_def OP_OACK_def char_of_def)
  have dec: "decode ([CHR 0x00, char_of OP_OACK] @ payload) = OACKDatagram_from_wire payload"
    for payload
    using decode_opcode [of OP_OACK payload]
    by (simp add: TFTPDatagramFactory_def OP_OACK_def OP_RRQ_def OP_WRQ_def OP_DATA_def
        OP_ACK_def OP_ERROR_def)
  show ?thesis
  proof (cases "options = []")
    case True
    have "OACKDatagram_from_wire [] = Inr (OACK [])"
      by (simp add: OACKDatagram_from_wire_def OACKDatagram_init_def)
    then show ?thesis
      using dec [of "[]"] True by (simp add: decode_encoded_def op)
  next
    case False
    then have ci: "chain_items options \<noteq> []"
      by (simp add: chain_items_Nil_iff)
    let ?tail = "join_bytes [NUL] (chain_items options) @ [NUL]"
    have sp: "split_bytes NUL ?tail = chain_items options @ [[]]"
      by (rule split_join_terminated [OF ci nf])
    have "OACKDatagram_from_wire ?tail = Inr (OACK options)"
      by (simp add: OACKDatagram_from_wire_def sp even_length_chain_items
          options_loop_chain_items [OF d] OACKDatagram_init_def)
    then show ?thesis
      using dec [of ?tail] False by (simp add: decode_encoded_def op)
  qed
qed

lemma pack_H_opcode:
  "0 \<le> n \<Longrightarrow> n < 256 \<Longrightarrow> pack_H n = Some [CHR 0x00, char_of n]"
  by (simp add: pack_H_def char_of_def)

lemma pack_H_cases:
  assumes "0 \<le> n" and "n \<le> 65535"
  obtains hi lo where "pack_H n = Some [hi, lo]" and "256 * of_char hi + of_char lo = n"
proof -
  have p: "pack_H n = Some [char_of (n div 256), char_of (n mod 256)]"
    using assms by (simp add: pack_H_def)
  from unpack_pack_H [OF p]
  have "256 * of_char (char_of (n div 256)) + of_char (char_of (n mod 256)) = n"
    by (simp only: unpack_H_two option.inject)
  with p show ?thesis
    by (rule that)
qed

lemma DATA_decode_encoded:
  assumes "well_formed (DATA blocknum data)"
  shows "decode_encoded (DATA blocknum data) = Inr (DATA blocknum data)"
proof -
  from assms obtain hi lo where p: "pack_H blocknum = Some [hi, lo]"
    and n: "256 * of_char hi + of_char lo = blocknum"
    using pack_H_cases [of blocknum] by auto
  have "decode ([CHR 0x00, char_of OP_DATA] @ hi # lo # data)
          = DATADatagram_from_wire (hi # lo # data)"
    using decode_opcode [of OP_DATA "hi # lo # data"]
    by (simp add: TFTPDatagramFactory_def OP_DATA_def OP_RRQ_def OP_WRQ_def)
  then show ?thesis
    using pack_H_opcode [of OP_DATA]
    by (simp add: decode_encoded_def pack_HH_def p OP_DATA_def DATA_from_wire_long n)
qed

lemma ACK_decode_encoded:
  assumes "well_formed (ACK blocknum)"
  shows "decode_encoded (ACK blocknum) = Inr (ACK blocknum)"
proof -
  from assms obtain hi lo where p: "pack_H blocknum = Some [hi, lo]"
    and n: "256 * of_char hi + of_char lo = blocknum"
    using pack_H_cases [of blocknum] by auto
  have "decode ([CHR 0x00, char_of OP_ACK] @ [hi, lo]) = ACKDatagram_from_wire [hi, lo]"
    using decode_opcode [of OP_ACK "[hi, lo]"]
    by (simp add: TFTPDatagramFactory_def OP_ACK_def OP_DATA_def OP_RRQ_def OP_WRQ_def)
  then show ?thesis
    using pack_H_opcode [of OP_ACK]
    by (simp add: decode_encoded_def pack_HH_def p OP_ACK_def ACKDatagram_from_wire_def
        unpack_H_two n ACKDatagram_init_def)
qed

lemma ERROR_decode_encoded:
  assumes "well_formed (ERROR errorcode errmsg)"
    and "wire_exact (ERROR errorcode errmsg)"
  shows "decode_encoded (ERROR errorcode errmsg) = Inr (ERROR errorcode errmsg)"
proof -
  from assms(1) have r: "0 \<le> errorcode" "errorcode \<le> 8" and nf: "NUL \<notin> set errmsg"
    by (simp_all add: nul_free_def)
  from r obtain hi lo where p: "pack_H errorcode = Some [hi, lo]"
    and n: "256 * of_char hi + of_char lo = errorcode"
    using pack_H_cases [of errorcode] by auto
  have tw: "takeWhile (\<lambda>c. c \<noteq> NUL) (errmsg @ [NUL]) = errmsg"
    using nf by (induction errmsg) auto
  have e0: "errors 0 = Some []"
    by (simp add: errors_def errors_items_def ERR_NOT_DEFINED_def)
  have fw: "ERRORDatagram_from_wire (hi # lo # errmsg @ [NUL]) = Inr (ERROR errorcode errmsg)"
    using r assms(2) by (auto simp: ERROR_from_wire_long n tw Let_def e0)
  have "decode ([CHR 0x00, char_of OP_ERROR] @ hi # lo # errmsg @ [NUL])
          = ERRORDatagram_from_wire (hi # lo # errmsg @ [NUL])"
    using decode_opcode [of OP_ERROR "hi # lo # errmsg @ [NUL]"]
    by (simp add: TFTPDatagramFactory_def OP_ERROR_def OP_ACK_def OP_DATA_def OP_RRQ_def
        OP_WRQ_def)
  then show ?thesis
    using pack_H_opcode [of OP_ERROR]
    by (simp add: decode_encoded_def pack_HH_def p OP_ERROR_def fw)
qed

text \<open>
  Claim C1, as amended. For every well-formed packet of the six types whose bytes the
  decoder reads back as they are (the last option value of an RRQ/WRQ is not empty, and
  an ERROR message is empty only for code 0), encoding succeeds and decoding the bytes
  (two-byte big-endian opcode, then the parser of that opcode) gives the packet itself,
  with the mode of an RRQ/WRQ in lowercase.
\<close>

theorem decode_encoded_exact:
  "well_formed p \<Longrightarrow> wire_exact p \<Longrightarrow> decode_encoded p = Inr (lowercased p)"
proof (cases p)
  case (RQ cls filename mode options)
  assume "well_formed p" "wire_exact p"
  with RQ show ?thesis
    using RQ_decode_encoded [of cls filename mode options] by simp
next
  case (OACK options)
  assume "well_formed p"
  with OACK show ?thesis
    using OACK_decode_encoded [of options] by simp
next
  case (DATA blocknum data)
  assume "well_formed p"
  with DATA show ?thesis
    using DATA_decode_encoded [of blocknum data] by simp
next
  case (ACK blocknum)
  assume "well_formed p"
  with ACK show ?thesis
    using ACK_decode_encoded [of blocknum] by simp
next
  case (ERROR errorcode errmsg)
  assume "well_formed p" "wire_exact p"
  with ERROR show ?thesis
    using ERROR_decode_encoded [of errorcode errmsg] by simp
qed

theorem decode_encoded_exact_witness:
  "well_formed (RQ WRQDatagram ''foo'' ''NetASCII'' [(''blksize'', ''8''), (''tsize'', ''0'')])
   \<and> wire_exact (RQ WRQDatagram ''foo'' ''NetASCII'' [(''blksize'', ''8''), (''tsize'', ''0'')])
   \<and> decode_encoded (RQ WRQDatagram ''foo'' ''NetASCII'' [(''blksize'', ''8''), (''tsize'', ''0'')])
       = Inr (RQ WRQDatagram ''foo'' ''netascii'' [(''blksize'', ''8''), (''tsize'', ''0'')])"
proof -
  have wf: "well_formed (RQ WRQDatagram ''foo'' ''NetASCII'' [(''blksize'', ''8''), (''tsize'', ''0'')])"
    by (simp add: nul_free_def NUL_def well_formed_options_def)
  have we: "wire_exact (RQ WRQDatagram ''foo'' ''NetASCII'' [(''blksize'', ''8''), (''tsize'', ''0'')])"
    by simp
  have lo: "bytes_lower ''NetASCII'' = ''netascii''"
    by code_simp
  from decode_encoded_exact [OF wf we] wf we lo show ?thesis
    by simp
qed

text \<open>
  Without the two conditions the packet does not come back: the well-formed ERROR
  packet with code 1 and an empty message decodes with the message "File not found",
  and the well-formed RRQ whose last option value is empty fails to decode.
\<close>

theorem decode_encoded_differs:
  "well_formed (ERROR 1 [])
   \<and> decode_encoded (ERROR 1 []) = Inr (ERROR 1 ''File not found'')
   \<and> decode_encoded (ERROR 1 []) \<noteq> Inr (lowercased (ERROR 1 []))
   \<and> well_formed (RQ RRQDatagram ''f'' ''octet'' [(''tsize'', [])])
   \<and> decode_encoded (RQ RRQDatagram ''f'' ''octet'' [(''tsize'', [])])
       = Inl (OptionsDecodeError (NoValue ''tsize''))"
proof -
  have 1: "well_formed (ERROR 1 [])"
    by (simp add: nul_free_def)
  have 2: "decode_encoded (ERROR 1 []) = Inr (ERROR 1 ''File not found'')"
    by code_simp
  have 3: "well_formed (RQ RRQDatagram ''f'' ''octet'' [(''tsize'', [])])"
    by (simp add: nul_free_def NUL_def well_formed_options_def)
  have 4: "decode_encoded (RQ RRQDatagram ''f'' ''octet'' [(''tsize'', [])])
       = Inl (OptionsDecodeError (NoValue ''tsize''))"
    by code_simp
  from 1 2 3 4 show ?thesis
    by simp
qed

section \<open>Integers as option values\<close>

lemma digits_value_append:
  "digits_value (xs @ ys) acc =
     (case digits_value xs acc of None \<Rightarrow> None | Some a \<Rightarrow> digits_value ys a)"
  by (induction xs arbitrary: acc) (auto split: option.splits)

lemma digit_value_char_of: "d < 10 \<Longrightarrow> digit_value (char_of (48 + d)) = Some (int d)"
proof -
  assume d: "d < 10"
  then have "(48 + d) mod 256 = 48 + d"
    by simp
  then have "(of_char (char_of (48 + d)) :: nat) = 48 + d"
    by simp
  with d show ?thesis
    by (simp add: digit_value_def Let_def del: of_char_of)
qed

lemma digits_value_nat_digits: "digits_value (nat_digits n) 0 = Some (int n)"
proof (induction n rule: nat_digits.induct)
  case (1 n)
  show ?case
  proof (cases "n < 10")
    case True
    then show ?thesis
      by (subst nat_digits.simps) (simp add: digit_value_char_of)
  next
    case False
    have m: "n mod 10 < 10"
      by simp
    have "int (n div 10) * 10 + int (n mod 10) = int n"
      by (metis mult.commute mult_div_mod_eq of_nat_add of_nat_mult of_nat_numeral)
    then have "10 * int (n div 10) + int (n mod 10) = int n"
      by simp
    with False "1.IH" [OF False] digit_value_char_of [OF m] show ?thesis
      by (subst nat_digits.simps) (simp add: digits_value_append)
  qed
qed

lemma nat_digits_first:
  "\<exists>c cs. nat_digits n = c # cs \<and> digit_value c \<noteq> None"
proof (induction n rule: nat_digits.induct)
  case (1 n)
  show ?case
  proof (cases "n < 10")
    case True
    then show ?thesis
      by (subst nat_digits.simps) (simp add: digit_value_char_of)
  next
    case False
    from "1.IH" [OF False] obtain c cs where "nat_digits (n div 10) = c # cs"
      and "digit_value c \<noteq> None"
      by blast
    with False show ?thesis
      by (subst nat_digits.simps) simp
  qed
qed

lemma digit_value_sign:
  "digit_value CHR ''-'' = None" "digit_value CHR ''+'' = None"
  by (simp_all add: digit_value_def)

lemma int_of_bytes_intToBytes: "0 \<le> v \<Longrightarrow> int_of_bytes (intToBytes v) = Some v"
proof -
  assume v: "0 \<le> v"
  obtain c cs where nd: "nat_digits (nat v) = c # cs" and c: "digit_value c \<noteq> None"
    using nat_digits_first [of "nat v"] by blast
  from c have ns: "c \<noteq> CHR ''-''" "c \<noteq> CHR ''+''"
    using digit_value_sign by auto
  have "digits_value (c # cs) 0 = Some v"
    using digits_value_nat_digits [of "nat v"] v by (simp add: nd)
  with ns v show ?thesis
    by (simp add: int_of_bytes_def intToBytes_def nd)
qed

lemma digit_value_simps:
  "digit_value CHR ''0'' = Some 0" "digit_value CHR ''1'' = Some 1" "digit_value CHR ''2'' = Some 2"
  "digit_value CHR ''3'' = Some 3" "digit_value CHR ''4'' = Some 4" "digit_value CHR ''5'' = Some 5"
  "digit_value CHR ''6'' = Some 6" "digit_value CHR ''7'' = Some 7" "digit_value CHR ''8'' = Some 8"
  "digit_value CHR ''9'' = Some 9" "digit_value CHR ''f'' = None"
  by (simp_all add: digit_value_def)

lemma int_of_bytes_examples: "int_of_bytes ''8'' = Some 8" "int_of_bytes ''65464'' = Some 65464"
    "int_of_bytes ''7'' = Some 7" "int_of_bytes ''foo'' = None"
    "int_of_bytes ''65465'' = Some 65465" "int_of_bytes ''70000'' = Some 70000"
  by (simp_all add: int_of_bytes_def digit_value_simps)

lemma digit_chars:
  "char_of (48::nat) = CHR ''0''" "char_of (49::nat) = CHR ''1''" "char_of (50::nat) = CHR ''2''"
  "char_of (51::nat) = CHR ''3''" "char_of (52::nat) = CHR ''4''" "char_of (53::nat) = CHR ''5''"
  "char_of (54::nat) = CHR ''6''" "char_of (55::nat) = CHR ''7''" "char_of (56::nat) = CHR ''8''"
  "char_of (57::nat) = CHR ''9''"
  by (simp_all add: char_of_def bit_0 bit_Suc)

lemma nat_digits_8: "nat_digits 8 = ''8''"
  by (subst nat_digits.simps) (simp add: digit_chars)

lemma nat_digits_65464: "nat_digits 65464 = ''65464''"
  apply (subst nat_digits.simps, simp add: digit_chars)
  apply (subst nat_digits.simps, simp add: digit_chars)
  apply (subst nat_digits.simps, simp add: digit_chars)
  apply (subst nat_digits.simps, simp add: digit_chars)
  apply (subst nat_digits.simps, simp add: digit_chars)
  done

lemma intToBytes_examples: "intToBytes 8 = ''8''" "intToBytes 65464 = ''65464''"
  by (simp_all add: intToBytes_def nat_digits_8 nat_digits_65464)

section \<open>The \<open>blksize\<close> option\<close>

lemma processOptions_loop_eq:
  "distinct (map fst accepted @ map fst items) \<Longrightarrow>
     processOptions_loop items accepted
       = accepted @ List.map_filter (\<lambda>(name, val). map_option (Pair name) (process_option name val)) items"
proof (induction items arbitrary: accepted)
  case Nil
  then show ?case by (simp add: List.map_filter_simps)
next
  case (Cons item items)
  obtain name val where item: "item = (name, val)"
    by (cases item)
  show ?case
  proof (cases "process_option name val")
    case None
    with Cons item show ?thesis
      by (simp add: List.map_filter_simps)
  next
    case (Some actual)
    have new: "name \<notin> fst ` set accepted"
      using Cons.prems item by auto
    have "distinct (map fst (accepted @ [(name, actual)]) @ map fst items)"
      using Cons.prems item by auto
    from Cons.IH [OF this] Some item new show ?thesis
      by (simp add: List.map_filter_simps od_set_new)
  qed
qed

lemma processOptions_eq:
  "distinct (map fst options) \<Longrightarrow>
     processOptions options
       = List.map_filter (\<lambda>(name, val). map_option (Pair name) (process_option name val)) options"
  using processOptions_loop_eq [of "[]" options] by (simp add: processOptions_def)

lemma map_of_accepted:
  "distinct (map fst options) \<Longrightarrow>
     map_of (List.map_filter (\<lambda>(name, val). map_option (Pair name) (process_option name val)) options) k
       = (case map_of options k of None \<Rightarrow> None | Some val \<Rightarrow> process_option k val)"
proof (induction options)
  case Nil
  then show ?case by (simp add: List.map_filter_simps)
next
  case (Cons item options)
  obtain name val where item: "item = (name, val)"
    by (cases item)
  have notin: "name = k \<Longrightarrow> map_of options k = None"
    using Cons.prems item by (auto simp: map_of_eq_None_iff)
  show ?case
    using Cons item notin
    by (cases "process_option name val") (auto simp: List.map_filter_simps)
qed

lemma distinct_accepted:
  "distinct (map fst options) \<Longrightarrow>
     distinct (map fst (List.map_filter (\<lambda>(name, val). map_option (Pair name) (process_option name val)) options))"
proof (induction options)
  case Nil
  then show ?case by (simp add: List.map_filter_simps)
next
  case (Cons item options)
  obtain name val where item: "item = (name, val)"
    by (cases item)
  have sub: "fst ` set (List.map_filter (\<lambda>(name, val). map_option (Pair name) (process_option name val)) options)
               \<subseteq> fst ` set options"
    by (force simp: List.map_filter_def)
  show ?case
    using Cons item sub
    by (cases "process_option name val") (auto simp: List.map_filter_simps)
qed

lemma process_option_integer:
  "process_option name val = Some actual \<Longrightarrow> int_of_bytes actual \<noteq> None"
  by (auto simp: process_option_def option_blksize_def option_timeout_def option_tsize_def
      MAX_BLOCK_SIZE_def int_of_bytes_intToBytes split: if_splits option.splits)

lemma accepted_integers:
  "list_all (\<lambda>(name, actual). int_of_bytes actual \<noteq> None)
     (List.map_filter (\<lambda>(name, val). map_option (Pair name) (process_option name val)) options)"
  by (auto simp: List.map_filter_def list_all_iff dest: process_option_integer)

lemma applyOptions_block_size:
  "distinct (map fst acks) \<Longrightarrow> list_all (\<lambda>(name, actual). int_of_bytes actual \<noteq> None) acks \<Longrightarrow>
     \<exists>s'. applyOptions s acks = Some s'
       \<and> block_size s' = (case map_of acks ''blksize'' of
                            None \<Rightarrow> block_size s
                          | Some actual \<Rightarrow> the (int_of_bytes actual))"
proof (induction acks arbitrary: s)
  case Nil
  then show ?case by simp
next
  case (Cons item acks)
  obtain name actual where item: "item = (name, actual)"
    by (cases item)
  obtain v where v: "int_of_bytes actual = Some v"
    using Cons.prems(2) item by auto
  have d: "distinct (map fst acks)"
    using Cons.prems(1) by simp
  have ints: "list_all (\<lambda>(name, actual). int_of_bytes actual \<noteq> None) acks"
    using Cons.prems(2) by simp
  have notin: "name = ''blksize'' \<Longrightarrow> map_of acks ''blksize'' = None"
    using Cons.prems(1) item by (auto simp: map_of_eq_None_iff)
  note ih = Cons.IH [OF d ints]
  show ?case
  proof (cases "name = ''blksize''")
    case True
    with ih [where s = "s\<lparr>block_size := v\<rparr>"] notin item v show ?thesis
      by (auto split: option.splits)
  next
    case False
    show ?thesis
    proof (cases "name = ''timeout''")
      case True
      with ih [where s = "s\<lparr>timeout := [v, v, v]\<rparr>"] item v show ?thesis
        by (auto split: option.splits)
    next
      case nt: False
      show ?thesis
      proof (cases "name = ''tsize''")
        case True
        with ih [where s = "s\<lparr>tsize := Some v\<rparr>"] item v show ?thesis
          by (auto split: option.splits)
      next
        case False
        with ih [where s = s] item nt \<open>name \<noteq> ''blksize''\<close> show ?thesis
          by (auto split: option.splits)
      qed
    qed
  qed
qed

lemma process_blksize_value:
  "process_option ''blksize'' val =
     (case int_of_bytes val of
        None \<Rightarrow> None
      | Some v \<Rightarrow> if 8 \<le> v \<and> v \<le> 65464 then Some (intToBytes v) else None)"
  by (auto simp: process_option_def option_blksize_def MAX_BLOCK_SIZE_def split: option.splits)

lemma processOptions_blksize_general:
  assumes "distinct (map fst options)" and "map_of options ''blksize'' = Some val"
  shows "map_of (processOptions options) ''blksize'' =
           (case int_of_bytes val of
              None \<Rightarrow> None
            | Some v \<Rightarrow> if 8 \<le> v \<and> v \<le> 65464 then Some (intToBytes v) else None)"
    and "\<exists>s'. applyOptions MockSession (processOptions options) = Some s'
           \<and> block_size s' =
               (case int_of_bytes val of
                  None \<Rightarrow> 512
                | Some v \<Rightarrow> if 8 \<le> v \<and> v \<le> 65464 then v else 512)"
proof -
  let ?acks = "List.map_filter (\<lambda>(name, val). map_option (Pair name) (process_option name val)) options"
  have eq: "processOptions options = ?acks"
    by (rule processOptions_eq [OF assms(1)])
  show m: "map_of (processOptions options) ''blksize'' =
           (case int_of_bytes val of
              None \<Rightarrow> None
            | Some v \<Rightarrow> if 8 \<le> v \<and> v \<le> 65464 then Some (intToBytes v) else None)"
    by (simp add: eq map_of_accepted [OF assms(1)] assms(2) process_blksize_value)
  obtain s' where s': "applyOptions MockSession ?acks = Some s'"
    and b: "block_size s' = (case map_of ?acks ''blksize'' of
                            None \<Rightarrow> block_size MockSession
                          | Some actual \<Rightarrow> the (int_of_bytes actual))"
    using applyOptions_block_size [OF distinct_accepted [OF assms(1)] accepted_integers,
        where s = MockSession]
    by blast
  have "block_size s' =
               (case int_of_bytes val of
                  None \<Rightarrow> 512
                | Some v \<Rightarrow> if 8 \<le> v \<and> v \<le> 65464 then v else 512)"
    using b m by (auto simp: eq MockSession_def int_of_bytes_intToBytes split: option.splits)
  with s' show "\<exists>s'. applyOptions MockSession (processOptions options) = Some s'
           \<and> block_size s' =
               (case int_of_bytes val of
                  None \<Rightarrow> 512
                | Some v \<Rightarrow> if 8 \<le> v \<and> v \<le> 65464 then v else 512)"
    by (simp add: eq)
qed

text \<open>
  Claim C3. For every option map with a \<open>blksize\<close> option, whatever its value, option
  processing accepts the option exactly when the value is an integer in \<open>[8, 65464]\<close>: the
  acknowledged set then holds \<open>blksize\<close> with that integer and the session's block size
  becomes it (8 as 8, 65464 as 65464). A non-integer, or an integer outside the range,
  is dropped: \<open>blksize\<close> is not in the acknowledged set and the session keeps the block
  size 512.
\<close>

theorem processOptions_blksize:
  assumes "distinct (map fst options)" and "map_of options ''blksize'' = Some val"
  shows "map_of (processOptions options) ''blksize'' =
           (case int_of_bytes val of
              None \<Rightarrow> None
            | Some v \<Rightarrow> if 8 \<le> v \<and> v \<le> 65464 then Some (intToBytes v) else None)
    \<and> (\<exists>s'. applyOptions MockSession (processOptions options) = Some s'
           \<and> block_size s' =
               (case int_of_bytes val of
                  None \<Rightarrow> 512
                | Some v \<Rightarrow> if 8 \<le> v \<and> v \<le> 65464 then v else 512))
    \<and> block_size MockSession = 512"
  using processOptions_blksize_general [OF assms] by (simp add: MockSession_def)

theorem processOptions_blksize_witness:
  "map_of (processOptions [(''blksize'', ''8'')]) ''blksize'' = Some ''8''
   \<and> (\<exists>s'. applyOptions MockSession (processOptions [(''blksize'', ''8'')]) = Some s'
          \<and> block_size s' = 8)
   \<and> map_of (processOptions [(''timeout'', ''7''), (''blksize'', ''65464'')]) ''blksize''
       = Some ''65464''
   \<and> (\<exists>s'. applyOptions MockSession (processOptions [(''timeout'', ''7''), (''blksize'', ''65464'')])
            = Some s'
          \<and> block_size s' = 65464)
   \<and> map_of (processOptions [(''blksize'', ''7'')]) ''blksize'' = None
   \<and> (\<exists>s'. applyOptions MockSession (processOptions [(''blksize'', ''7'')]) = Some s'
          \<and> block_size s' = 512)
   \<and> map_of (processOptions [(''blksize'', ''foo'')]) ''blksize'' = None
   \<and> (\<exists>s'. applyOptions MockSession (processOptions [(''blksize'', ''foo'')]) = Some s'
          \<and> block_size s' = 512)"
proof -
  have a: "distinct (map fst [(''blksize'', ''8'')])"
    "map_of [(''blksize'', ''8'')] ''blksize'' = Some ''8''"
    by simp_all
  have b: "distinct (map fst [(''timeout'', ''7''), (''blksize'', ''65464'')])"
    "map_of [(''timeout'', ''7''), (''blksize'', ''65464'')] ''blksize'' = Some ''65464''"
    by simp_all
  have c: "distinct (map fst [(''blksize'', ''7'')])"
    "map_of [(''blksize'', ''7'')] ''blksize'' = Some ''7''"
    by simp_all
  have d: "distinct (map fst [(''blksize'', ''foo'')])"
    "map_of [(''blksize'', ''foo'')] ''blksize'' = Some ''foo''"
    by simp_all
  show ?thesis
    using processOptions_blksize [OF a] processOptions_blksize [OF b]
      processOptions_blksize [OF c] processOptions_blksize [OF d]
    by (simp add: int_of_bytes_examples intToBytes_examples)
qed

text \<open>
  Claim C2, as amended. For every option map whose \<open>blksize\<close> option is an integer
  strictly above 65464, option processing drops the option: the acknowledged set does
  not hold \<open>blksize\<close> and the session keeps the block size 512.
\<close>

theorem processOptions_blksize_above_max:
  assumes "distinct (map fst options)" and "map_of options ''blksize'' = Some val"
    and "int_of_bytes val = Some v" and "65464 < v"
  shows "map_of (processOptions options) ''blksize'' = None
    \<and> (\<exists>s'. applyOptions MockSession (processOptions options) = Some s'
           \<and> block_size s' = 512)"
  using processOptions_blksize_general [OF assms(1,2)] assms(3,4) by simp

theorem processOptions_blksize_above_max_witness:
  "int_of_bytes ''70000'' = Some 70000
   \<and> map_of (processOptions [(''blksize'', ''70000'')]) ''blksize'' = None
   \<and> (\<exists>s'. applyOptions MockSession (processOptions [(''blksize'', ''70000'')]) = Some s'
          \<and> block_size s' = 512)"
proof -
  have a: "distinct (map fst [(''blksize'', ''70000'')])"
    "map_of [(''blksize'', ''70000'')] ''blksize'' = Some ''70000''"
    by simp_all
  have i: "int_of_bytes ''70000'' = Some 70000"
    by (rule int_of_bytes_examples)
  have m: "(65464::int) < 70000"
    by simp
  from processOptions_blksize_above_max [OF a i m] i show ?thesis
    by simp
qed

lemma processOptions_single:
  "processOptions [(name, val)] =
     (case process_option name val of None \<Rightarrow> [] | Some actual_value \<Rightarrow> [(name, actual_value)])"
  by (simp add: processOptions_def split: option.splits)

text \<open>
  The value 65465 is not clamped: the acknowledged set is empty, it does not report
  65464, and the block size stays 512, as \<open>test_blksize\<close> asserts.
\<close>

theorem processOptions_blksize_not_clamped:
  "int_of_bytes ''65465'' = Some 65465
   \<and> processOptions [(''blksize'', ''65465'')] = []
   \<and> map_of (processOptions [(''blksize'', ''65465'')]) ''blksize'' \<noteq> Some ''65464''
   \<and> map_option block_size (applyOptions MockSession (processOptions [(''blksize'', ''65465'')]))
       = Some 512"
proof -
  have i: "int_of_bytes ''65465'' = Some 65465"
    by (rule int_of_bytes_examples)
  have p: "processOptions [(''blksize'', ''65465'')] = []"
    by (simp add: processOptions_single process_blksize_value i)
  show ?thesis
    by (simp add: i p MockSession_def)
qed

section \<open>The TID guard\<close>

lemma tid_unknown_reply_eq:
  "tid_unknown_reply addr
     = [([CHR 0x00, CHR 0x05, CHR 0x00, CHR 0x05] @ ''Unknown transfer ID'' @ [NUL], addr)]"
proof -
  have e: "errors ERR_TID_UNKNOWN = Some ''Unknown transfer ID''"
    by (simp add: errors_def errors_items_def ERR_NOT_DEFINED_def ERR_FILE_NOT_FOUND_def
        ERR_ACCESS_VIOLATION_def ERR_DISK_FULL_def ERR_ILLEGAL_OP_def ERR_TID_UNKNOWN_def)
  have p: "pack_HH OP_ERROR ERR_TID_UNKNOWN = Some [CHR 0x00, CHR 0x05, CHR 0x00, CHR 0x05]"
    by (simp add: pack_HH_def pack_H_def OP_ERROR_def ERR_TID_UNKNOWN_def char_of_def)
  show ?thesis
    by (simp add: tid_unknown_reply_def ERRORDatagram_from_code_def e ERRORDatagram_init_def p)
qed

lemma decode_tid_unknown:
  "decode ([CHR 0x00, CHR 0x05, CHR 0x00, CHR 0x05] @ ''Unknown transfer ID'' @ [NUL])
     = Inr (ERROR ERR_TID_UNKNOWN ''Unknown transfer ID'')"
  by code_simp

text \<open>
  Claim C8. A bootstrap bound to a remote TID that receives a datagram from any other
  address writes one datagram, to that address, which decodes as the ERROR packet with
  code 5 (unknown transfer ID); its own state is unchanged, so a later datagram from the
  bound peer is processed as if the foreign one had never arrived.
\<close>

theorem datagramReceived_unknown_tid:
  assumes "addr \<noteq> remote b"
  shows "(\<exists>wire. datagramReceived handle b datagram addr = (b, [(wire, addr)])
            \<and> decode wire = Inr (ERROR ERR_TID_UNKNOWN ''Unknown transfer ID''))
    \<and> datagramReceived handle (fst (datagramReceived handle b datagram addr)) later (remote b)
        = datagramReceived handle b later (remote b)"
proof -
  have r: "datagramReceived handle b datagram addr = (b, tid_unknown_reply addr)"
    using assms by (auto simp: datagramReceived_def)
  show ?thesis
    using decode_tid_unknown by (simp add: r tid_unknown_reply_eq)
qed

theorem datagramReceived_unknown_tid_witness:
  "(''127.0.0.1'', 1111) \<noteq> remote \<lparr>remote = (''127.0.0.1'', 65465), inner = (0::nat)\<rparr>
   \<and> (\<exists>wire. datagramReceived (\<lambda>s d. (Suc s, [(d, (''127.0.0.1'', 65465))]))
                \<lparr>remote = (''127.0.0.1'', 65465), inner = (0::nat)\<rparr> ''x'' (''127.0.0.1'', 1111)
              = (\<lparr>remote = (''127.0.0.1'', 65465), inner = 0\<rparr>, [(wire, (''127.0.0.1'', 1111))])
            \<and> decode wire = Inr (ERROR ERR_TID_UNKNOWN ''Unknown transfer ID''))"
proof -
  have n: "(''127.0.0.1'', 1111) \<noteq> remote \<lparr>remote = (''127.0.0.1'', 65465), inner = (0::nat)\<rparr>"
    by simp
  from datagramReceived_unknown_tid [OF n] n show ?thesis
    by blast
qed

end
